theory Spec2Isabelle
  imports Main "HOL-Library.AList" "HOL-Library.Char_ord" "HOL-Library.List_Lexorder"
begin

section \<open>Core of the plugin system: data model\<close>

text \<open>
  The development embeds \<^verbatim>\<open>class Core\<close> (constructor and \<^verbatim>\<open>registerPlugins\<close>).
  JavaScript values that a plugin exposes are \<^verbatim>\<open>undefined\<close>, \<^verbatim>\<open>null\<close>, or any other
  value, which is represented by the table of the properties that a read \<^verbatim>\<open>v[k]\<close> finds
  on it (own or inherited); a property that is not in the table reads as \<^verbatim>\<open>undefined\<close>.
  Strings are lists of 8-bit characters, ordered by character code; this is the order of
  \<^verbatim>\<open>Array.prototype.sort\<close> on strings whose code units are below 256.
\<close>

datatype jsval = Undefined | Null | Obj "(string \<times> jsval) list"

text \<open>
  What can be thrown: the \<^verbatim>\<open>Error\<close> that \<^verbatim>\<open>registerPlugins\<close> builds, with its message; the
  \<^verbatim>\<open>TypeError\<close> of a property read on \<^verbatim>\<open>undefined\<close> or \<^verbatim>\<open>null\<close>; the \<^verbatim>\<open>RangeError\<close> of an
  exhausted call stack. A plugin hook may throw any of them.
\<close>

datatype exn = Error string | TypeError | RangeError

type_synonym 'a result = "exn + 'a"

text \<open>The object that the \<^verbatim>\<open>metadata\<close> getter of a plugin returns.\<close>

record metadata =
  name :: string
  provides :: "string list"
  depends :: "string list"

text \<open>
  The registration options, second element of a plugin/options pair. \<open>None\<close> is a
  property that is absent (\<^verbatim>\<open>undefined\<close>).
\<close>

record options =
  name :: "string option"
  overrides :: "(string \<times> string) list option"

text \<open>
  The objects that the \<^verbatim>\<open>reduce\<close> at the end of \<^verbatim>\<open>registerPlugins\<close> handles: an object
  made by \<^verbatim>\<open>{}\<close> (\<open>None\<close>) or a metadata object (\<open>Some m\<close>), with the properties that
  have been assigned to it.
\<close>

datatype js_obj = JsObj "metadata option" "(string \<times> js_obj) list"

text \<open>
  What a plugin sees of Core is the object passed to \<^verbatim>\<open>register\<close>, which the plugins keep
  (\<^verbatim>\<open>this.core = plugins\<close>) and may read in every later hook. A view is the function that
  reads a property of that object at the moment of the call.
\<close>

type_synonym view = "string \<Rightarrow> jsval result"

text \<open>
  A plugin object: its identity (two records denote the same object iff their \<open>ident\<close>
  agree), the metadata its getter returns (a fresh object at each call, as in every
  plugin of the repository) and its four hooks. A hook returns or throws, depending on
  what it reads through its view; it does not call \<^verbatim>\<open>registerPlugins\<close> itself, and what
  else it does (to the plugin, to the page) is not part of the state of Core.
\<close>

record plugin =
  ident :: nat
  metadata :: metadata
  register :: "view \<Rightarrow> jsval result"
  init :: "view \<Rightarrow> exn option"
  afterInit :: "view \<Rightarrow> exn option"
  onPluginRegister :: "js_obj \<Rightarrow> view \<Rightarrow> exn option"

text \<open>An element of the array given to \<^verbatim>\<open>registerPlugins\<close>: a plugin or a pair.\<close>

datatype item = Plain plugin | WithOptions plugin options

text \<open>The calls that Core makes on plugin objects, in the order it makes them.\<close>

datatype call =
    Register nat
  | Init nat
  | AfterInit nat
  | OnPluginRegister nat js_obj

text \<open>
  The fields of a \<^verbatim>\<open>Core\<close> instance. \<open>calls\<close> is not a field of the class: it logs the
  hook invocations, the effects of \<^verbatim>\<open>registerPlugins\<close> outside of Core.
\<close>

record core =
  dependencyGraph :: "string \<rightharpoonup> string list"
  plugins :: "string \<rightharpoonup> jsval"
  availablePlugins :: "string list"
  rawPlugins :: "(plugin \<times> options) list"
  calls :: "call list"

definition constructor :: core where
  "constructor = \<lparr>dependencyGraph = Map.empty, plugins = Map.empty,
     availablePlugins = [], rawPlugins = [], calls = []\<rparr>"

section \<open>Control: statements that may throw\<close>

type_synonym 's stmt = "'s \<Rightarrow> exn option \<times> 's"

definition seq :: "'s stmt \<Rightarrow> 's stmt \<Rightarrow> 's stmt" where
  "seq f g s = (case f s of (Some e, s') \<Rightarrow> (Some e, s') | (None, s') \<Rightarrow> g s')"

fun forEach :: "('a \<Rightarrow> 's stmt) \<Rightarrow> 'a list \<Rightarrow> 's stmt" where
  "forEach f [] s = (None, s)"
| "forEach f (x # xs) s = seq (f x) (forEach f xs) s"

section \<open>The object passed to register\<close>

text \<open>\<^verbatim>\<open>this.plugins[k]\<close> on Core: the table has no prototype.\<close>

definition plugins_get :: "(string \<rightharpoonup> jsval) \<Rightarrow> string \<Rightarrow> jsval" where
  "plugins_get tbl k = (case tbl k of None \<Rightarrow> Undefined | Some v \<Rightarrow> v)"

text \<open>\<^verbatim>\<open>v[k]\<close> on a value.\<close>

fun get_prop :: "jsval \<Rightarrow> string \<Rightarrow> jsval result" where
  "get_prop Undefined k = Inl TypeError"
| "get_prop Null k = Inl TypeError"
| "get_prop (Obj ps) k = Inr (case map_of ps k of None \<Rightarrow> Undefined | Some v \<Rightarrow> v)"

text \<open>The keys that \<^verbatim>\<open>for (let overrideKey in options.overrides)\<close> visits.\<close>

definition override_keys :: "options \<Rightarrow> string list" where
  "override_keys opts = (case overrides opts of None \<Rightarrow> [] | Some ov \<Rightarrow> map fst ov)"

text \<open>
  A read of property \<open>k\<close> on \<^verbatim>\<open>pluginsWithOverrides\<close>, with that object as receiver.
  The object is \<^verbatim>\<open>Object.create(this.plugins)\<close> with one own accessor per override key,
  whose getter is \<^verbatim>\<open>get() { return this.plugins[overrideKey]; }\<close>. In the getter \<^verbatim>\<open>this\<close>
  is the receiver, so \<^verbatim>\<open>this.plugins\<close> is again a read on the object, of property
  \<open>''plugins''\<close>: when \<open>''plugins''\<close> is itself an override key, that read enters the
  same getter without end and the engine throws \<^verbatim>\<open>RangeError\<close>; otherwise it falls
  through the prototype to the table of Core, and \<open>k\<close> is read on the value found there.
  A key with no own accessor is read from the table of Core as it is at that moment.
\<close>

definition view_get :: "(string \<rightharpoonup> jsval) \<Rightarrow> options \<Rightarrow> view" where
  "view_get tbl opts k =
     (if k \<in> set (override_keys opts) then
        (if ''plugins'' \<in> set (override_keys opts) then Inl RangeError
         else get_prop (plugins_get tbl ''plugins'') k)
      else Inr (plugins_get tbl k))"

section \<open>registerPlugins\<close>

text \<open>\<^verbatim>\<open>Array.isArray(p) ? p : [p, {}]\<close>\<close>

fun normalize_item :: "item \<Rightarrow> plugin \<times> options" where
  "normalize_item (Plain p) = (p, \<lparr>options.name = None, overrides = None\<rparr>)"
| "normalize_item (WithOptions p opts) = (p, opts)"

text \<open>\<^verbatim>\<open>options.name || metadata.name\<close>: the empty string is falsy.\<close>

definition key_of :: "plugin \<times> options \<Rightarrow> string" where
  "key_of po = (case options.name (snd po) of
      None \<Rightarrow> metadata.name (metadata (fst po))
    | Some n \<Rightarrow> if n = [] then metadata.name (metadata (fst po)) else n)"

subsection \<open>Dependency checking\<close>

text \<open>A \<^verbatim>\<open>Set\<close> keeps its elements in insertion order, each once.\<close>

definition set_add :: "string \<Rightarrow> string list \<Rightarrow> string list" where
  "set_add x s = (if x \<in> set s then s else s @ [x])"

definition new_Set :: "string list \<Rightarrow> string list" where
  "new_Set xs = fold set_add xs []"

text \<open>
  The body of the first \<^verbatim>\<open>forEach\<close>, on the pair of \<^verbatim>\<open>availablePlugins\<close> and
  \<^verbatim>\<open>requiredDependencies\<close>.
\<close>

definition collect :: "plugin \<times> options \<Rightarrow> string list \<times> string list \<Rightarrow> string list \<times> string list" where
  "collect po ar =
     (let md = metadata (fst po);
          required = fold set_add (depends md) (snd ar);
          available = fold set_add (provides md) (set_add (metadata.name md) (fst ar))
      in (available, required))"

text \<open>The set \<^verbatim>\<open>difference\<close>.\<close>

definition difference :: "(plugin \<times> options) list \<Rightarrow> string list \<Rightarrow> string list" where
  "difference normalizedPlugins avail =
     (let ar = fold collect normalizedPlugins (new_Set avail, [])
      in filter (\<lambda>p. p \<notin> set (fst ar)) (snd ar))"

fun join :: "string \<Rightarrow> string list \<Rightarrow> string" where
  "join sep [] = []"
| "join sep [x] = x"
| "join sep (x # y # ys) = x @ sep @ join sep (y # ys)"

definition unmet_message :: "string list \<Rightarrow> string" where
  "unmet_message diff = ''Unmet dependencies: '' @ join '', '' (sort diff)"

subsection \<open>Name registration\<close>

text \<open>One round of \<^verbatim>\<open>metadata.depends.forEach\<close> in the registration loop.\<close>

definition add_dependency :: "string \<Rightarrow> string \<Rightarrow> (string \<rightharpoonup> string list) \<Rightarrow> (string \<rightharpoonup> string list)" where
  "add_dependency nm dependency g =
     g(dependency \<mapsto> (case g dependency of None \<Rightarrow> [] | Some l \<Rightarrow> l) @ [nm])"

text \<open>One round of \<^verbatim>\<open>metadata.provides.forEach\<close> in the registration loop.\<close>

definition expose_provided :: "jsval \<Rightarrow> string \<Rightarrow> core \<Rightarrow> core" where
  "expose_provided v provided c =
     (let c' = (if plugins c provided = None
                then c\<lparr>plugins := (plugins c)(provided \<mapsto> v)\<rparr> else c)
      in c'\<lparr>availablePlugins := availablePlugins c' @ [provided]\<rparr>)"

text \<open>
  What follows the call of \<^verbatim>\<open>register\<close> in the body of the registration loop, \<open>v\<close> being
  the value returned.
\<close>

definition expose :: "plugin \<times> options \<Rightarrow> jsval \<Rightarrow> core \<Rightarrow> core" where
  "expose po v c =
     (let md = metadata (fst po);
          c1 = c\<lparr>dependencyGraph := fold (add_dependency (metadata.name md)) (depends md) (dependencyGraph c)\<rparr>;
          c2 = c1\<lparr>plugins := (plugins c1)(key_of po \<mapsto> v)\<rparr>;
          c3 = c2\<lparr>availablePlugins := availablePlugins c2 @ [metadata.name md]\<rparr>
      in fold (expose_provided v) (provides md) c3)"

text \<open>The body of the registration loop.\<close>

definition register_one :: "plugin \<times> options \<Rightarrow> core stmt" where
  "register_one po c =
     (let c0 = c\<lparr>calls := calls c @ [Register (ident (fst po))]\<rparr>
      in case register (fst po) (view_get (plugins c) (snd po)) of
           Inl e \<Rightarrow> (Some e, c0)
         | Inr v \<Rightarrow> (None, expose po v c0))"

subsection \<open>Initialisation, notification\<close>

definition init_one :: "plugin \<times> options \<Rightarrow> core stmt" where
  "init_one po c =
     (init (fst po) (view_get (plugins c) (snd po)),
      c\<lparr>calls := calls c @ [Init (ident (fst po))]\<rparr>)"

definition afterInit_one :: "plugin \<times> options \<Rightarrow> core stmt" where
  "afterInit_one po c =
     (afterInit (fst po) (view_get (plugins c) (snd po)),
      c\<lparr>calls := calls c @ [AfterInit (ident (fst po))]\<rparr>)"

text \<open>
  \<^verbatim>\<open>data[k] = v\<close>: the object after the write, and the value of the assignment
  expression, which is the value assigned.
\<close>

fun assign :: "js_obj \<Rightarrow> string \<Rightarrow> js_obj \<Rightarrow> js_obj \<times> js_obj" where
  "assign (JsObj b ps) k v = (JsObj b (AList.update k v ps), v)"

text \<open>
  The callback of \<^verbatim>\<open>reduce\<close>, an arrow function whose body is the assignment
  expression: it returns the value of that expression.
\<close>

definition reducer :: "js_obj \<Rightarrow> plugin \<times> options \<Rightarrow> js_obj" where
  "reducer data po = snd (assign data (key_of po) (JsObj (Some (metadata (fst po))) []))"

definition pluginData :: "(plugin \<times> options) list \<Rightarrow> js_obj" where
  "pluginData normalizedPlugins = foldl reducer (JsObj None []) normalizedPlugins"

definition notify_one :: "js_obj \<Rightarrow> plugin \<times> options \<Rightarrow> core stmt" where
  "notify_one data po c =
     (onPluginRegister (fst po) data (view_get (plugins c) (snd po)),
      c\<lparr>calls := calls c @ [OnPluginRegister (ident (fst po)) data]\<rparr>)"

definition notify :: "(plugin \<times> options) list \<Rightarrow> core stmt" where
  "notify normalizedPlugins c =
     forEach (notify_one (pluginData normalizedPlugins)) (rawPlugins c) c"

definition commit :: "(plugin \<times> options) list \<Rightarrow> core stmt" where
  "commit normalizedPlugins c =
     (None, c\<lparr>rawPlugins := rawPlugins c @ normalizedPlugins\<rparr>)"

subsection \<open>The method\<close>

text \<open>The statements after the dependency check.\<close>

definition lifecycle :: "(plugin \<times> options) list \<Rightarrow> core stmt" where
  "lifecycle ps =
     seq (forEach register_one ps)
      (seq (forEach init_one ps)
        (seq (forEach afterInit_one ps)
          (seq (notify ps) (commit ps))))"

definition registerPlugins :: "item list \<Rightarrow> core stmt" where
  "registerPlugins batch c =
     (let normalizedPlugins = map normalize_item batch;
          diff = difference normalizedPlugins (availablePlugins c)
      in if diff \<noteq> [] then (Some (Error (unmet_message diff)), c)
         else lifecycle normalizedPlugins c)"

section \<open>Notions used to state the properties\<close>

text \<open>
  Every name in the \<open>depends\<close> of a member of the batch is among the names already
  available or is the name or a \<open>provides\<close> entry of a member of the batch.
\<close>

definition satisfiable :: "item list \<Rightarrow> core \<Rightarrow> bool" where
  "satisfiable batch c \<longleftrightarrow>
     (\<forall>po \<in> set (map normalize_item batch). \<forall>d \<in> set (depends (metadata (fst po))).
        d \<in> set (availablePlugins c) \<or>
        (\<exists>qo \<in> set (map normalize_item batch).
           d = metadata.name (metadata (fst qo)) \<or> d \<in> set (provides (metadata (fst qo)))))"

text \<open>The names that some member depends on and that nothing supplies.\<close>

definition missing :: "item list \<Rightarrow> core \<Rightarrow> string set" where
  "missing batch c =
     {d. (\<exists>po \<in> set (map normalize_item batch). d \<in> set (depends (metadata (fst po)))) \<and>
         d \<notin> set (availablePlugins c) \<and>
         (\<forall>qo \<in> set (map normalize_item batch).
            d \<noteq> metadata.name (metadata (fst qo)) \<and> d \<notin> set (provides (metadata (fst qo))))}"

text \<open>Whatever they read, \<^verbatim>\<open>register\<close>, \<^verbatim>\<open>init\<close> and \<^verbatim>\<open>afterInit\<close> of the plugin return.\<close>

definition lifecycle_returns :: "plugin \<Rightarrow> bool" where
  "lifecycle_returns p \<longleftrightarrow>
     (\<forall>v. \<not> isl (register p v)) \<and> (\<forall>v. init p v = None) \<and> (\<forall>v. afterInit p v = None)"

text \<open>Whatever it is given, \<^verbatim>\<open>onPluginRegister\<close> of the plugin returns.\<close>

definition notification_returns :: "plugin \<Rightarrow> bool" where
  "notification_returns p \<longleftrightarrow> (\<forall>d v. onPluginRegister p d v = None)"

text \<open>The dependents that a batch adds to the entry of \<open>d\<close>, by metadata name.\<close>

definition dependents :: "(plugin \<times> options) list \<Rightarrow> string \<Rightarrow> string list" where
  "dependents ps d =
     concat (map (\<lambda>po. map (\<lambda>_. metadata.name (metadata (fst po)))
                          (filter (\<lambda>x. x = d) (depends (metadata (fst po))))) ps)"

text \<open>\<^verbatim>\<open>this.dependencyGraph[d]\<close>, an absent entry read as the empty array.\<close>

definition graph_get :: "(string \<rightharpoonup> string list) \<Rightarrow> string \<Rightarrow> string list" where
  "graph_get g d = (case g d of None \<Rightarrow> [] | Some l \<Rightarrow> l)"

text \<open>
  The argument of \<^verbatim>\<open>onPluginRegister\<close> as the comments of the plugins describe it: "an
  object whose keys are the exposed names of the plugins and whose values are the
  metadata objects of the plugins".
\<close>

definition metadata_by_key :: "(plugin \<times> options) list \<Rightarrow> js_obj" where
  "metadata_by_key ps =
     JsObj None (fold (\<lambda>po. AList.update (key_of po) (JsObj (Some (metadata (fst po))) [])) ps [])"

text \<open>The plugins that a sequence of calls notifies, in order.\<close>

fun notified :: "call list \<Rightarrow> nat list" where
  "notified [] = []"
| "notified (OnPluginRegister i d # cs) = i # notified cs"
| "notified (_ # cs) = notified cs"

section \<open>Example plugins\<close>

definition no_options :: options where
  "no_options = \<lparr>options.name = None, overrides = None\<rparr>"

text \<open>A plugin with no dependency whose hooks do nothing: it exposes the given value.\<close>

definition simple_plugin :: "nat \<Rightarrow> string \<Rightarrow> string list \<Rightarrow> string list \<Rightarrow> jsval \<Rightarrow> plugin" where
  "simple_plugin i n prov deps v =
     \<lparr>ident = i, metadata = \<lparr>metadata.name = n, provides = prov, depends = deps\<rparr>,
      register = (\<lambda>_. Inr v), init = (\<lambda>_. None), afterInit = (\<lambda>_. None),
      onPluginRegister = (\<lambda>_ _. None)\<rparr>"

definition loggerValue :: jsval where
  "loggerValue = Obj [(''log'', Obj [])]"

definition logger :: plugin where
  "logger = simple_plugin 0 ''logger'' [] [] loggerValue"

text \<open>\<^verbatim>\<open>HasDependencyPlugin\<close> of the repository.\<close>

definition hasDependency :: plugin where
  "hasDependency = simple_plugin 1 ''hasDependency'' [] [''example''] (Obj [])"

text \<open>
  A plugin that depends on \<open>logger\<close> and reads \<^verbatim>\<open>plugins.logger\<close> in \<^verbatim>\<open>register\<close>; it
  exposes an object that holds what it has read.
\<close>

definition app :: plugin where
  "app = \<lparr>ident = 4, metadata = \<lparr>metadata.name = ''app'', provides = [], depends = [''logger'']\<rparr>,
      register = (\<lambda>view. case view ''logger'' of Inl e \<Rightarrow> Inl e
                                               | Inr l \<Rightarrow> Inr (Obj [(''logger'', l)])),
      init = (\<lambda>_. None), afterInit = (\<lambda>_. None), onPluginRegister = (\<lambda>_ _. None)\<rparr>"

text \<open>Two providers of the name \<open>svc\<close>.\<close>

definition provider1 :: plugin where
  "provider1 = simple_plugin 5 ''p1'' [''svc''] [] (Obj [(''one'', Null)])"


text \<open>Options that give the exposure key \<open>main\<close>.\<close>

definition main_options :: options where
  "main_options = \<lparr>options.name = Some ''main'', overrides = None\<rparr>"

text \<open>Options that give the exposure key \<open>customLogger\<close>.\<close>

definition custom_options :: options where
  "custom_options = \<lparr>options.name = Some ''customLogger'', overrides = None\<rparr>"

text \<open>A plugin that depends on the name \<open>customLogger\<close>.\<close>

definition consumer :: plugin where
  "consumer = simple_plugin 8 ''consumer'' [] [''customLogger''] (Obj [])"

text \<open>\<^verbatim>\<open>{ overrides: { logger: "customLogger" } }\<close>\<close>

definition override_options :: options where
  "override_options = \<lparr>options.name = None, overrides = Some [(''logger'', ''customLogger'')]\<rparr>"


text \<open>A plugin with several dependencies, one of them twice.\<close>

definition needy :: plugin where
  "needy = simple_plugin 9 ''needy'' [] [''zeta'', ''alpha'', ''zeta'', ''logger''] (Obj [])"

text \<open>
  Variants of \<^verbatim>\<open>CircularDependencyAPlugin\<close> and \<^verbatim>\<open>CircularDependencyBPlugin\<close>, named A
  and B, whose \<^verbatim>\<open>afterInit\<close> uses the other plugin: A reads \<^verbatim>\<open>this.core.B.b\<close> and B reads
  \<^verbatim>\<open>this.core.A.a\<close>, which throws \<^verbatim>\<open>TypeError\<close> when the other plugin is not resolved.
\<close>

definition probeA :: plugin where
  "probeA = \<lparr>ident = 10, metadata = \<lparr>metadata.name = ''A'', provides = [], depends = [''B'']\<rparr>,
      register = (\<lambda>_. Inr (Obj [(''a'', Null)])),
      init = (\<lambda>_. None),
      afterInit = (\<lambda>view. case view ''B'' of Inl e \<Rightarrow> Some e
                                 | Inr b \<Rightarrow> (case get_prop b ''b'' of Inl e \<Rightarrow> Some e | Inr _ \<Rightarrow> None)),
      onPluginRegister = (\<lambda>_ _. None)\<rparr>"

definition probeB :: plugin where
  "probeB = \<lparr>ident = 11, metadata = \<lparr>metadata.name = ''B'', provides = [], depends = [''A'']\<rparr>,
      register = (\<lambda>_. Inr (Obj [(''b'', Null)])),
      init = (\<lambda>_. None),
      afterInit = (\<lambda>view. case view ''A'' of Inl e \<Rightarrow> Some e
                                 | Inr a \<Rightarrow> (case get_prop a ''a'' of Inl e \<Rightarrow> Some e | Inr _ \<Rightarrow> None)),
      onPluginRegister = (\<lambda>_ _. None)\<rparr>"


section \<open>Sequencing and loops\<close>

lemma seq_None: "seq f g s = (None, s'') \<longleftrightarrow> (\<exists>s'. f s = (None, s') \<and> g s' = (None, s''))"
  by (auto simp: seq_def split: prod.splits option.splits)

lemma seq_fst_None: "fst (seq f g s) = None \<longleftrightarrow> fst (f s) = None \<and> fst (g (snd (f s))) = None"
  by (auto simp: seq_def split: prod.splits option.splits)

lemma seq_snd: "fst (f s) = None \<Longrightarrow> snd (seq f g s) = snd (g (snd (f s)))"
  by (auto simp: seq_def split: prod.splits option.splits)

lemma forEach_quiet:
  "(\<And>x s. x \<in> set xs \<Longrightarrow> fst (f x s) = None) \<Longrightarrow> fst (forEach f xs s) = None"
  by (induction xs arbitrary: s) (auto simp: seq_fst_None)

lemma forEach_inv:
  assumes "\<And>x s. x \<in> set xs \<Longrightarrow> I s \<Longrightarrow> I (snd (f x s))" and "I s"
  shows "I (snd (forEach f xs s))"
  using assms
proof (induction xs arbitrary: s)
  case Nil
  then show ?case by simp
next
  case (Cons x xs)
  show ?case
  proof (cases "f x s")
    case (Pair r s')
    have s': "I s'" using Cons.prems(1)[of x s] Cons.prems(2) Pair by simp
    show ?thesis
    proof (cases r)
      case None
      then show ?thesis using Pair Cons.IH[of s'] Cons.prems(1) s' by (simp add: seq_def)
    next
      case (Some e)
      then show ?thesis using Pair s' by (simp add: seq_def)
    qed
  qed
qed

lemma forEach_Cons_None:
  "forEach f (x # xs) s = (None, s'') \<longleftrightarrow> (\<exists>s'. f x s = (None, s') \<and> forEach f xs s' = (None, s''))"
  by (simp add: seq_None)


subsection \<open>The registration loop\<close>

lemma expose_provided_fields [simp]:
  "availablePlugins (expose_provided v p c) = availablePlugins c @ [p]"
  "dependencyGraph (expose_provided v p c) = dependencyGraph c"
  "rawPlugins (expose_provided v p c) = rawPlugins c"
  "calls (expose_provided v p c) = calls c"
  "plugins (expose_provided v p c) = (if plugins c p = None then (plugins c)(p \<mapsto> v) else plugins c)"
  by (simp_all add: expose_provided_def Let_def)

lemma fold_expose_provided_fields [simp]:
  "availablePlugins (fold (expose_provided v) ps c) = availablePlugins c @ ps"
  "dependencyGraph (fold (expose_provided v) ps c) = dependencyGraph c"
  "rawPlugins (fold (expose_provided v) ps c) = rawPlugins c"
  "calls (fold (expose_provided v) ps c) = calls c"
  by (induction ps arbitrary: c) simp_all

lemma fold_expose_provided_plugins:
  "plugins (fold (expose_provided v) ps c) k =
     (case plugins c k of Some w \<Rightarrow> Some w | None \<Rightarrow> if k \<in> set ps then Some v else None)"
  by (induction ps arbitrary: c) (auto split: option.splits)

lemma expose_fields [simp]:
  "availablePlugins (expose po v c) = availablePlugins c @ metadata.name (metadata (fst po)) # provides (metadata (fst po))"
  "dependencyGraph (expose po v c) = fold (add_dependency (metadata.name (metadata (fst po)))) (depends (metadata (fst po))) (dependencyGraph c)"
  "rawPlugins (expose po v c) = rawPlugins c"
  "calls (expose po v c) = calls c"
  by (simp_all add: expose_def Let_def)

lemma expose_plugins:
  "plugins (expose po v c) k =
     (if k = key_of po then Some v
      else case plugins c k of Some w \<Rightarrow> Some w
           | None \<Rightarrow> if k \<in> set (provides (metadata (fst po))) then Some v else None)"
  by (simp add: expose_def Let_def fold_expose_provided_plugins)

subsection \<open>The dependency check\<close>

lemma set_fold_set_add [simp]: "set (fold set_add xs s) = set xs \<union> set s"
  by (induction xs arbitrary: s) (auto simp: set_add_def)

lemma distinct_fold_set_add: "distinct s \<Longrightarrow> distinct (fold set_add xs s)"
  by (induction xs arbitrary: s) (auto simp: set_add_def)

lemma set_new_Set [simp]: "set (new_Set xs) = set xs"
  by (simp add: new_Set_def)

lemma set_set_add [simp]: "set (set_add x s) = insert x (set s)"
  by (auto simp: set_add_def)

lemma fold_collect_available:
  "set (fst (fold collect ps ar)) =
     set (fst ar) \<union> (\<Union>po \<in> set ps. insert (metadata.name (metadata (fst po))) (set (provides (metadata (fst po)))))"
  by (induction ps arbitrary: ar) (auto simp: collect_def Let_def)

lemma fold_collect_required:
  "set (snd (fold collect ps ar)) = set (snd ar) \<union> (\<Union>po \<in> set ps. set (depends (metadata (fst po))))"
  by (induction ps arbitrary: ar) (auto simp: collect_def Let_def)

lemma fold_collect_distinct:
  "distinct (snd ar) \<Longrightarrow> distinct (snd (fold collect ps ar))"
  by (induction ps arbitrary: ar) (auto simp: collect_def Let_def distinct_fold_set_add)

lemma set_difference:
  "set (difference ps avail) =
     {d. (\<exists>po \<in> set ps. d \<in> set (depends (metadata (fst po)))) \<and> d \<notin> set avail \<and>
         (\<forall>qo \<in> set ps. d \<noteq> metadata.name (metadata (fst qo)) \<and> d \<notin> set (provides (metadata (fst qo))))}"
  by (auto simp: difference_def Let_def fold_collect_available fold_collect_required)

lemma distinct_difference: "distinct (difference ps avail)"
  by (simp add: difference_def Let_def fold_collect_distinct)

subsection \<open>The phases\<close>

lemma init_phase:
  "forEach init_one ps c = (None, c') \<Longrightarrow>
     c' = c\<lparr>calls := calls c @ map (\<lambda>po. Init (ident (fst po))) ps\<rparr>"
proof (induction ps arbitrary: c)
  case Nil
  then show ?case by simp
next
  case (Cons x xs)
  from Cons.prems obtain c1 where
    1: "init_one x c = (None, c1)" and 2: "forEach init_one xs c1 = (None, c')"
    by (auto simp: seq_None)
  from 1 have c1: "c1 = c\<lparr>calls := calls c @ [Init (ident (fst x))]\<rparr>"
    by (auto simp: init_one_def)
  show ?case using Cons.IH[OF 2] by (simp add: c1)
qed

lemma afterInit_phase:
  "forEach afterInit_one ps c = (None, c') \<Longrightarrow>
     c' = c\<lparr>calls := calls c @ map (\<lambda>po. AfterInit (ident (fst po))) ps\<rparr>"
proof (induction ps arbitrary: c)
  case Nil
  then show ?case by simp
next
  case (Cons x xs)
  from Cons.prems obtain c1 where
    1: "afterInit_one x c = (None, c1)" and 2: "forEach afterInit_one xs c1 = (None, c')"
    by (auto simp: seq_None)
  from 1 have c1: "c1 = c\<lparr>calls := calls c @ [AfterInit (ident (fst x))]\<rparr>"
    by (auto simp: afterInit_one_def)
  show ?case using Cons.IH[OF 2] by (simp add: c1)
qed

lemma notify_phase:
  "forEach (notify_one d) rs c = (None, c') \<Longrightarrow>
     c' = c\<lparr>calls := calls c @ map (\<lambda>po. OnPluginRegister (ident (fst po)) d) rs\<rparr>"
proof (induction rs arbitrary: c)
  case Nil
  then show ?case by simp
next
  case (Cons x xs)
  from Cons.prems obtain c1 where
    1: "(notify_one d) x c = (None, c1)" and 2: "forEach (notify_one d) xs c1 = (None, c')"
    by (auto simp: seq_None)
  from 1 have c1: "c1 = c\<lparr>calls := calls c @ [OnPluginRegister (ident (fst x)) d]\<rparr>"
    by (auto simp: notify_one_def)
  show ?case using Cons.IH[OF 2] by (simp add: c1)
qed

lemma register_one_fields:
  "rawPlugins (snd (register_one po c)) = rawPlugins c"
  "calls (snd (register_one po c)) = calls c @ [Register (ident (fst po))]"
  by (simp_all add: register_one_def Let_def split: sum.splits)

lemma register_one_None:
  "register_one po c = (None, c') \<longleftrightarrow>
     (\<exists>v. register (fst po) (view_get (plugins c) (snd po)) = Inr v \<and>
          c' = expose po v (c\<lparr>calls := calls c @ [Register (ident (fst po))]\<rparr>))"
  by (auto simp: register_one_def Let_def split: sum.splits)

lemma register_phase_calls:
  "forEach register_one ps c = (None, c') \<Longrightarrow>
     calls c' = calls c @ map (\<lambda>po. Register (ident (fst po))) ps"
  by (induction ps arbitrary: c) (auto simp: seq_None register_one_None)

lemma register_phase_rawPlugins:
  "forEach register_one ps c = (None, c') \<Longrightarrow> rawPlugins c' = rawPlugins c"
  by (induction ps arbitrary: c) (auto simp: seq_None register_one_None)

lemma register_phase_availablePlugins:
  "forEach register_one ps c = (None, c') \<Longrightarrow>
     availablePlugins c' = availablePlugins c @
       concat (map (\<lambda>po. metadata.name (metadata (fst po)) # provides (metadata (fst po))) ps)"
  by (induction ps arbitrary: c) (auto simp: seq_None register_one_None)

lemma register_phase_dependencyGraph:
  "forEach register_one ps c = (None, c') \<Longrightarrow>
     dependencyGraph c' =
       fold (\<lambda>po. fold (add_dependency (metadata.name (metadata (fst po)))) (depends (metadata (fst po)))) ps (dependencyGraph c)"
  by (induction ps arbitrary: c) (auto simp: seq_None register_one_None)

subsection \<open>The check and the specification of what is missing\<close>

lemma difference_missing: "set (difference (map normalize_item batch) (availablePlugins c)) = missing batch c"
  unfolding set_difference missing_def by simp

lemma difference_Nil_iff: "difference (map normalize_item batch) (availablePlugins c) = [] \<longleftrightarrow> satisfiable batch c"
proof -
  have "difference (map normalize_item batch) (availablePlugins c) = [] \<longleftrightarrow> missing batch c = {}"
    using difference_missing[of batch c] by auto
  also have "\<dots> \<longleftrightarrow> satisfiable batch c"
    unfolding missing_def satisfiable_def by blast
  finally show ?thesis .
qed

subsection \<open>The statements after the check\<close>

lemma lifecycle_None:
  assumes "lifecycle ps c = (None, c')"
  shows "\<exists>c1. forEach register_one ps c = (None, c1) \<and>
           c' = c1\<lparr>calls := calls c1 @ map (\<lambda>po. Init (ident (fst po))) ps
                          @ map (\<lambda>po. AfterInit (ident (fst po))) ps
                          @ map (\<lambda>po. OnPluginRegister (ident (fst po)) (pluginData ps)) (rawPlugins c1),
                      rawPlugins := rawPlugins c1 @ ps\<rparr>"
proof -
  from assms obtain c1 c2 c3 c4 where
    1: "forEach register_one ps c = (None, c1)" and
    2: "forEach init_one ps c1 = (None, c2)" and
    3: "forEach afterInit_one ps c2 = (None, c3)" and
    4: "notify ps c3 = (None, c4)" and
    5: "commit ps c4 = (None, c')"
    unfolding lifecycle_def seq_None by blast
  have c2: "c2 = c1\<lparr>calls := calls c1 @ map (\<lambda>po. Init (ident (fst po))) ps\<rparr>"
    using init_phase[OF 2] .
  have c3: "c3 = c2\<lparr>calls := calls c2 @ map (\<lambda>po. AfterInit (ident (fst po))) ps\<rparr>"
    using afterInit_phase[OF 3] .
  have c4: "c4 = c3\<lparr>calls := calls c3 @ map (\<lambda>po. OnPluginRegister (ident (fst po)) (pluginData ps)) (rawPlugins c3)\<rparr>"
    using 4 notify_phase unfolding notify_def by blast
  have c': "c' = c4\<lparr>rawPlugins := rawPlugins c4 @ ps\<rparr>"
    using 5 by (simp add: commit_def)
  show ?thesis using 1 by (simp add: c' c4 c3 c2)
qed

lemma register_phase_returns:
  assumes "\<And>po. po \<in> set ps \<Longrightarrow> \<forall>v. \<not> isl (register (fst po) v)"
  shows "fst (forEach register_one ps c) = None"
proof (rule forEach_quiet)
  fix x and s :: core
  assume "x \<in> set ps"
  then have "\<not> isl (register (fst x) (view_get (plugins s) (snd x)))"
    using assms by blast
  then show "fst (register_one x s) = None"
    by (auto simp: register_one_def Let_def split: sum.splits)
qed

lemma lifecycle_returns_None:
  assumes "\<And>po. po \<in> set ps \<Longrightarrow> lifecycle_returns (fst po)"
      and "\<And>po. po \<in> set (rawPlugins c) \<Longrightarrow> notification_returns (fst po)"
  shows "fst (lifecycle ps c) = None"
proof -
  have r: "\<And>s. fst (forEach register_one ps s) = None"
    using assms(1) by (intro register_phase_returns) (simp add: lifecycle_returns_def)
  have i: "\<And>s. fst (forEach init_one ps s) = None"
    using assms(1) by (intro forEach_quiet) (simp add: lifecycle_returns_def init_one_def)
  have a: "\<And>s. fst (forEach afterInit_one ps s) = None"
    using assms(1) by (intro forEach_quiet) (simp add: lifecycle_returns_def afterInit_one_def)
  have raw: "\<And>s. rawPlugins (snd (forEach register_one ps s)) = rawPlugins s"
    by (rule forEach_inv[where I="\<lambda>t. rawPlugins t = rawPlugins s" for s]) (simp_all add: register_one_fields)
  have raw_i: "\<And>s. rawPlugins (snd (forEach init_one ps s)) = rawPlugins s"
    by (rule forEach_inv[where I="\<lambda>t. rawPlugins t = rawPlugins s" for s]) (simp_all add: init_one_def)
  have raw_a: "\<And>s. rawPlugins (snd (forEach afterInit_one ps s)) = rawPlugins s"
    by (rule forEach_inv[where I="\<lambda>t. rawPlugins t = rawPlugins s" for s]) (simp_all add: afterInit_one_def)
  have n: "\<And>s. rawPlugins s = rawPlugins c \<Longrightarrow> fst (notify ps s) = None"
    unfolding notify_def using assms(2)
    by (intro forEach_quiet) (simp add: notification_returns_def notify_one_def)
  show ?thesis
    unfolding lifecycle_def
    by (simp add: seq_fst_None r i a n raw raw_i raw_a commit_def)
qed

subsection \<open>The method as a whole\<close>

lemma registerPlugins_None:
  "registerPlugins batch c = (None, c') \<longleftrightarrow>
     satisfiable batch c \<and> lifecycle (map normalize_item batch) c = (None, c')"
  using difference_Nil_iff[of batch c] by (auto simp: registerPlugins_def Let_def)

lemma registerPlugins_unmet:
  "\<not> satisfiable batch c \<Longrightarrow>
     registerPlugins batch c =
       (Some (Error (unmet_message (difference (map normalize_item batch) (availablePlugins c)))), c)"
  using difference_Nil_iff[of batch c] by (auto simp: registerPlugins_def Let_def)

lemma registerPlugins_calls:
  assumes "registerPlugins batch c = (None, c')"
  shows "calls c' = calls c
           @ map (\<lambda>po. Register (ident (fst po))) (map normalize_item batch)
           @ map (\<lambda>po. Init (ident (fst po))) (map normalize_item batch)
           @ map (\<lambda>po. AfterInit (ident (fst po))) (map normalize_item batch)
           @ map (\<lambda>po. OnPluginRegister (ident (fst po)) (pluginData (map normalize_item batch))) (rawPlugins c)"
    and "rawPlugins c' = rawPlugins c @ map normalize_item batch"
proof -
  from assms have "lifecycle (map normalize_item batch) c = (None, c')"
    by (simp add: registerPlugins_None)
  from lifecycle_None[OF this] obtain c1 where
    1: "forEach register_one (map normalize_item batch) c = (None, c1)" and
    2: "c' = c1\<lparr>calls := calls c1 @ map (\<lambda>po. Init (ident (fst po))) (map normalize_item batch)
                          @ map (\<lambda>po. AfterInit (ident (fst po))) (map normalize_item batch)
                          @ map (\<lambda>po. OnPluginRegister (ident (fst po)) (pluginData (map normalize_item batch))) (rawPlugins c1),
                      rawPlugins := rawPlugins c1 @ map normalize_item batch\<rparr>"
    by blast
  show "calls c' = calls c
           @ map (\<lambda>po. Register (ident (fst po))) (map normalize_item batch)
           @ map (\<lambda>po. Init (ident (fst po))) (map normalize_item batch)
           @ map (\<lambda>po. AfterInit (ident (fst po))) (map normalize_item batch)
           @ map (\<lambda>po. OnPluginRegister (ident (fst po)) (pluginData (map normalize_item batch))) (rawPlugins c)"
    using register_phase_calls[OF 1] register_phase_rawPlugins[OF 1] by (simp add: 2)
  show "rawPlugins c' = rawPlugins c @ map normalize_item batch"
    using register_phase_rawPlugins[OF 1] by (simp add: 2)
qed

lemma registerPlugins_returns:
  assumes "satisfiable batch c"
      and "\<forall>po \<in> set (map normalize_item batch). lifecycle_returns (fst po)"
      and "\<forall>po \<in> set (rawPlugins c). notification_returns (fst po)"
  shows "\<exists>c'. registerPlugins batch c = (None, c')"
proof -
  have "fst (lifecycle (map normalize_item batch) c) = None"
    using assms(2,3) by (intro lifecycle_returns_None) blast+
  then obtain c' where "lifecycle (map normalize_item batch) c = (None, c')"
    by (cases "lifecycle (map normalize_item batch) c") simp
  then show ?thesis using assms(1) by (auto simp: registerPlugins_None)
qed

subsection \<open>Evaluation, notifications, the dependency graph\<close>

text \<open>The definitions that evaluate \<^verbatim>\<open>registerPlugins\<close> on a given batch.\<close>

lemmas ev = registerPlugins_def difference_def new_Set_def collect_def set_add_def unmet_message_def
   simple_plugin_def constructor_def Let_def
   lifecycle_def seq_def register_one_def init_one_def afterInit_one_def notify_def notify_one_def commit_def expose_def
   expose_provided_def key_of_def view_get_def override_keys_def plugins_get_def pluginData_def reducer_def add_dependency_def

lemma register_phase_plugins_single:
  "forEach register_one [po] c = (None, c1) \<Longrightarrow>
     \<exists>v. register (fst po) (view_get (plugins c) (snd po)) = Inr v \<and> plugins c1 (key_of po) = Some v"
  by (auto simp: seq_None register_one_None expose_plugins)

lemma registered_rawPlugins:
  "forEach registerPlugins batches c0 = (None, c) \<Longrightarrow>
     rawPlugins c = rawPlugins c0 @ concat (map (map normalize_item) batches)"
proof (induction batches arbitrary: c0)
  case Nil
  then show ?case by simp
next
  case (Cons b bs)
  from Cons.prems obtain c1 where
    1: "registerPlugins b c0 = (None, c1)" and 2: "forEach registerPlugins bs c1 = (None, c)"
    by (auto simp: seq_None)
  show ?case using Cons.IH[OF 2] registerPlugins_calls(2)[OF 1] by simp
qed

lemma notified_append: "notified (xs @ ys) = notified xs @ notified ys"
  by (induction xs rule: notified.induct) simp_all

lemma notified_map [simp]:
  "notified (map (\<lambda>po. Register (f po)) ps) = []"
  "notified (map (\<lambda>po. Init (f po)) ps) = []"
  "notified (map (\<lambda>po. AfterInit (f po)) ps) = []"
  "notified (map (\<lambda>po. OnPluginRegister (f po) d) ps) = map f ps"
  by (induction ps) simp_all

lemma pluginData_snoc: "pluginData (ps @ [po]) = JsObj (Some (metadata (fst po))) []"
  by (cases "foldl reducer (JsObj None []) ps") (simp add: pluginData_def reducer_def)

lemma filter_eq_key_Nil: "filter (\<lambda>x. x = d) ds = [] \<longleftrightarrow> d \<notin> set ds"
  by (auto simp: filter_empty_conv)

lemma fold_add_dependency:
  "fold (add_dependency nm) ds g d =
     (if d \<in> set ds then Some (graph_get g d @ map (\<lambda>_. nm) (filter (\<lambda>x. x = d) ds)) else g d)"
proof (induction ds arbitrary: g)
  case Nil
  then show ?case by simp
next
  case (Cons x xs)
  show ?case
    by (simp add: Cons.IH) (auto simp: add_dependency_def graph_get_def filter_eq_key_Nil)
qed

lemma fold_add_dependency_get:
  "graph_get (fold (add_dependency nm) ds g) d = graph_get g d @ map (\<lambda>_. nm) (filter (\<lambda>x. x = d) ds)"
proof (cases "d \<in> set ds")
  case True
  then show ?thesis by (simp add: graph_get_def[of "fold (add_dependency nm) ds g"] fold_add_dependency)
next
  case False
  then show ?thesis by (simp add: graph_get_def fold_add_dependency filter_eq_key_Nil)
qed

lemma dependents_Nil_iff: "dependents ps d = [] \<longleftrightarrow> (\<forall>po \<in> set ps. d \<notin> set (depends (metadata (fst po))))"
  by (auto simp: dependents_def filter_eq_key_Nil)

lemma dependents_Cons:
  "dependents (po # ps) d =
     map (\<lambda>_. metadata.name (metadata (fst po))) (filter (\<lambda>x. x = d) (depends (metadata (fst po)))) @ dependents ps d"
  by (simp add: dependents_def)

lemma fold_dependencies:
  "fold (\<lambda>po. fold (add_dependency (metadata.name (metadata (fst po)))) (depends (metadata (fst po)))) ps g d =
     (if dependents ps d = [] then g d else Some (graph_get g d @ dependents ps d))"
proof (induction ps arbitrary: g)
  case Nil
  then show ?case by (simp add: dependents_def)
next
  case (Cons po ps)
  let ?nm = "metadata.name (metadata (fst po))"
  let ?ds = "depends (metadata (fst po))"
  let ?g = "fold (add_dependency ?nm) ?ds g"
  have g: "?g d = (if d \<in> set ?ds
                 then Some (graph_get g d @ map (\<lambda>_. ?nm) (filter (\<lambda>x. x = d) ?ds))
                 else g d)"
    by (rule fold_add_dependency)
  have gg: "graph_get ?g d = graph_get g d @ map (\<lambda>_. ?nm) (filter (\<lambda>x. x = d) ?ds)"
    by (rule fold_add_dependency_get)
  have step: "fold (\<lambda>po. fold (add_dependency (metadata.name (metadata (fst po)))) (depends (metadata (fst po)))) (po # ps) g d =
      (if dependents ps d = [] then ?g d else Some (graph_get ?g d @ dependents ps d))"
    using Cons.IH[of ?g] by simp
  show ?case
  proof (cases "d \<in> set ?ds")
    case True
    then have ne: "filter (\<lambda>x. x = d) ?ds \<noteq> []" by (simp add: filter_eq_key_Nil)
    show ?thesis unfolding step gg g dependents_Cons using True ne by simp
  next
    case False
    then have f: "filter (\<lambda>x. x = d) ?ds = []" by (simp add: filter_eq_key_Nil)
    show ?thesis unfolding step gg g dependents_Cons using False f by simp
  qed
qed

subsection \<open>The exposure table through the registration loop\<close>

lemma unmet_names:
  assumes "\<not> satisfiable batch c"
  shows "\<exists>names. registerPlugins batch c =
                    (Some (Error (''Unmet dependencies: '' @ join '', '' names)), c) \<and>
                  set names = missing batch c \<and> sorted names \<and> distinct names"
proof -
  let ?d = "difference (map normalize_item batch) (availablePlugins c)"
  have "registerPlugins batch c = (Some (Error (''Unmet dependencies: '' @ join '', '' (sort ?d))), c)"
    using registerPlugins_unmet[OF assms] by (simp add: unmet_message_def)
  moreover have "set (sort ?d) = missing batch c"
    by (simp add: difference_missing)
  moreover have "sorted (sort ?d)" by simp
  moreover have "distinct (sort ?d)" by (simp add: distinct_difference)
  ultimately show ?thesis by blast
qed

lemma registerPlugins_register_phase:
  assumes "registerPlugins batch c = (None, c')"
  shows "\<exists>c1. forEach register_one (map normalize_item batch) c = (None, c1) \<and>
           plugins c' = plugins c1 \<and> availablePlugins c' = availablePlugins c1 \<and>
           dependencyGraph c' = dependencyGraph c1"
proof -
  from assms have "lifecycle (map normalize_item batch) c = (None, c')"
    by (simp add: registerPlugins_None)
  from lifecycle_None[OF this] show ?thesis by auto
qed

lemma register_phase_kept:
  "forEach register_one ps c = (None, c1) \<Longrightarrow> plugins c k \<noteq> None \<Longrightarrow> plugins c1 k \<noteq> None"
proof (induction ps arbitrary: c)
  case Nil
  then show ?case by simp
next
  case (Cons po ps)
  from Cons.prems(1) obtain c0 where
    1: "register_one po c = (None, c0)" and 2: "forEach register_one ps c0 = (None, c1)"
    by (auto simp: seq_None)
  from 1 Cons.prems(2) have "plugins c0 k \<noteq> None"
    by (auto simp: register_one_None expose_plugins)
  then show ?case using Cons.IH[OF 2] by simp
qed

lemma register_one_bound:
  assumes "register_one po c = (None, c0)"
  shows "plugins c0 (key_of po) \<noteq> None" and "n \<in> set (provides (metadata (fst po))) \<Longrightarrow> plugins c0 n \<noteq> None"
  using assms by (auto simp: register_one_None expose_plugins split: option.splits)

lemma register_phase_bound:
  assumes "forEach register_one ps c = (None, c1)" and "po \<in> set ps"
  shows "plugins c1 (key_of po) \<noteq> None \<and> (\<forall>n \<in> set (provides (metadata (fst po))). plugins c1 n \<noteq> None)"
  using assms
proof (induction ps arbitrary: c)
  case Nil
  then show ?case by simp
next
  case (Cons qo ps)
  from Cons.prems(1) obtain c0 where
    1: "register_one qo c = (None, c0)" and 2: "forEach register_one ps c0 = (None, c1)"
    by (auto simp: seq_None)
  show ?case
  proof (cases "po = qo")
    case True
    then show ?thesis
      using register_one_bound[OF 1] register_phase_kept[OF 2] by blast
  next
    case False
    then show ?thesis using Cons.IH[OF 2] Cons.prems(2) by simp
  qed
qed



lemma register_phase_defined:
  "forEach register_one ps c = (None, c1) \<Longrightarrow> \<forall>k. plugins c k \<noteq> Some Undefined \<Longrightarrow>
     \<forall>po \<in> set ps. \<forall>view. register (fst po) view \<noteq> Inr Undefined \<Longrightarrow>
     plugins c1 k \<noteq> Some Undefined"
proof (induction ps arbitrary: c)
  case Nil
  then show ?case by simp
next
  case (Cons po ps)
  from Cons.prems(1) obtain c0 where
    1: "register_one po c = (None, c0)" and 2: "forEach register_one ps c0 = (None, c1)"
    by (auto simp: seq_None)
  from 1 obtain v where v: "register (fst po) (view_get (plugins c) (snd po)) = Inr v"
     and c0: "c0 = expose po v (c\<lparr>calls := calls c @ [Register (ident (fst po))]\<rparr>)"
    by (auto simp: register_one_None)
  from v Cons.prems(3) have "v \<noteq> Undefined" by auto
  then have "\<forall>k. plugins c0 k \<noteq> Some Undefined"
    using Cons.prems(2) by (auto simp: c0 expose_plugins split: option.splits)
  then show ?case using Cons.IH[OF 2] Cons.prems(3) by simp
qed

lemma init_phase_plugins: "plugins (snd (forEach init_one ps c)) = plugins c"
  by (rule forEach_inv[where I = "\<lambda>t. plugins t = plugins c"]) (simp_all add: init_one_def)

lemma register_phase_two:
  assumes "forEach register_one [(A, oa), (B, ob)] c = (None, c1)"
      and "key_of (A, oa) \<noteq> key_of (B, ob)"
  shows "\<exists>vA vB. register A (view_get (plugins c) oa) = Inr vA \<and>
           register B (view_get (plugins (snd (register_one (A, oa) c))) ob) = Inr vB \<and>
           plugins c1 (key_of (A, oa)) = Some vA \<and> plugins c1 (key_of (B, ob)) = Some vB"
proof -
  from assms(1) obtain c0 where
    1: "register_one (A, oa) c = (None, c0)" and 2: "register_one (B, ob) c0 = (None, c1)"
    by (auto simp: seq_None)
  from 1 obtain vA where vA: "register A (view_get (plugins c) oa) = Inr vA"
     and a: "plugins c0 (key_of (A, oa)) = Some vA"
    by (auto simp: register_one_None expose_plugins)
  from 2 obtain vB where vB: "register B (view_get (plugins c0) ob) = Inr vB"
     and c1: "c1 = expose (B, ob) vB (c0\<lparr>calls := calls c0 @ [Register (ident B)]\<rparr>)"
    by (auto simp: register_one_None)
  have "plugins c1 (key_of (B, ob)) = Some vB" by (simp add: c1 expose_plugins)
  moreover have "plugins c1 (key_of (A, oa)) = Some vA"
    using a assms(2) by (simp add: c1 expose_plugins)
  ultimately show ?thesis using vA vB 1 by auto
qed

subsection \<open>What the hooks are given\<close>

lemma init_phase_hooks:
  "forEach init_one ps c = (None, c') \<Longrightarrow> po \<in> set ps \<Longrightarrow>
     init (fst po) (view_get (plugins c) (snd po)) = None"
proof (induction ps arbitrary: c)
  case Nil
  then show ?case by simp
next
  case (Cons x xs)
  from Cons.prems(1) obtain c1 where
    1: "init_one x c = (None, c1)" and 2: "forEach init_one xs c1 = (None, c')"
    by (auto simp: seq_None)
  from 1 have h: "init (fst x) (view_get (plugins c) (snd x)) = None" and p: "plugins c1 = plugins c"
    by (auto simp: init_one_def)
  show ?case
  proof (cases "po = x")
    case True
    then show ?thesis using h by simp
  next
    case False
    then show ?thesis using Cons.IH[OF 2] Cons.prems(2) p by simp
  qed
qed

lemma afterInit_phase_hooks:
  "forEach afterInit_one ps c = (None, c') \<Longrightarrow> po \<in> set ps \<Longrightarrow>
     afterInit (fst po) (view_get (plugins c) (snd po)) = None"
proof (induction ps arbitrary: c)
  case Nil
  then show ?case by simp
next
  case (Cons x xs)
  from Cons.prems(1) obtain c1 where
    1: "afterInit_one x c = (None, c1)" and 2: "forEach afterInit_one xs c1 = (None, c')"
    by (auto simp: seq_None)
  from 1 have h: "afterInit (fst x) (view_get (plugins c) (snd x)) = None" and p: "plugins c1 = plugins c"
    by (auto simp: afterInit_one_def)
  show ?case
  proof (cases "po = x")
    case True
    then show ?thesis using h by simp
  next
    case False
    then show ?thesis using Cons.IH[OF 2] Cons.prems(2) p by simp
  qed
qed

lemma init_phase_returns:
  "\<forall>po \<in> set ps. init (fst po) (view_get (plugins c) (snd po)) = None \<Longrightarrow>
     forEach init_one ps c = (None, c\<lparr>calls := calls c @ map (\<lambda>po. Init (ident (fst po))) ps\<rparr>)"
proof (induction ps arbitrary: c)
  case Nil
  then show ?case by simp
next
  case (Cons x xs)
  let ?d = "c\<lparr>calls := calls c @ [Init (ident (fst x))]\<rparr>"
  have 1: "init_one x c = (None, ?d)" using Cons.prems by (simp add: init_one_def)
  have "\<forall>po \<in> set xs. init (fst po) (view_get (plugins ?d) (snd po)) = None"
    using Cons.prems by simp
  from Cons.IH[OF this] show ?case using 1 by (simp add: seq_def)
qed

lemma afterInit_phase_returns:
  "\<forall>po \<in> set ps. afterInit (fst po) (view_get (plugins c) (snd po)) = None \<Longrightarrow>
     forEach afterInit_one ps c = (None, c\<lparr>calls := calls c @ map (\<lambda>po. AfterInit (ident (fst po))) ps\<rparr>)"
proof (induction ps arbitrary: c)
  case Nil
  then show ?case by simp
next
  case (Cons x xs)
  let ?d = "c\<lparr>calls := calls c @ [AfterInit (ident (fst x))]\<rparr>"
  have 1: "afterInit_one x c = (None, ?d)" using Cons.prems by (simp add: afterInit_one_def)
  have "\<forall>po \<in> set xs. afterInit (fst po) (view_get (plugins ?d) (snd po)) = None"
    using Cons.prems by simp
  from Cons.IH[OF this] show ?case using 1 by (simp add: seq_def)
qed

text \<open>What the hooks of a call that returns normally were given, and what they did.\<close>

lemma lifecycle_hooks:
  assumes "lifecycle ps c = (None, c')" and "po \<in> set ps"
  shows "init (fst po) (view_get (plugins c') (snd po)) = None"
    and "afterInit (fst po) (view_get (plugins c') (snd po)) = None"
proof -
  from assms(1) obtain c1 c2 c3 c4 where
    1: "forEach register_one ps c = (None, c1)" and
    2: "forEach init_one ps c1 = (None, c2)" and
    3: "forEach afterInit_one ps c2 = (None, c3)" and
    4: "notify ps c3 = (None, c4)" and
    5: "commit ps c4 = (None, c')"
    unfolding lifecycle_def seq_None by blast
  have c2: "plugins c2 = plugins c1" using init_phase[OF 2] by simp
  from lifecycle_None[OF assms(1)] 1 have c': "plugins c' = plugins c1" by auto
  show "init (fst po) (view_get (plugins c') (snd po)) = None"
    using init_phase_hooks[OF 2 assms(2)] c' by simp
  show "afterInit (fst po) (view_get (plugins c') (snd po)) = None"
    using afterInit_phase_hooks[OF 3 assms(2)] c2 c' by simp
qed

lemma lifecycle_returns_on_views:
  assumes 1: "forEach register_one ps c = (None, c1)"
      and i: "\<forall>po \<in> set ps. init (fst po) (view_get (plugins c1) (snd po)) = None"
      and a: "\<forall>po \<in> set ps. afterInit (fst po) (view_get (plugins c1) (snd po)) = None"
      and n: "\<forall>po \<in> set (rawPlugins c). notification_returns (fst po)"
  shows "\<exists>c'. lifecycle ps c = (None, c')"
proof -
  let ?c2 = "c1\<lparr>calls := calls c1 @ map (\<lambda>po. Init (ident (fst po))) ps\<rparr>"
  let ?c3 = "?c2\<lparr>calls := calls ?c2 @ map (\<lambda>po. AfterInit (ident (fst po))) ps\<rparr>"
  have 2: "forEach init_one ps c1 = (None, ?c2)" by (rule init_phase_returns[OF i])
  have "\<forall>po \<in> set ps. afterInit (fst po) (view_get (plugins ?c2) (snd po)) = None"
    using a by simp
  from afterInit_phase_returns[OF this] have 3: "forEach afterInit_one ps ?c2 = (None, ?c3)" .
  have raw: "rawPlugins ?c3 = rawPlugins c" using register_phase_rawPlugins[OF 1] by simp
  have "fst (notify ps ?c3) = None"
    unfolding notify_def raw using n
    by (intro forEach_quiet) (simp add: notification_returns_def notify_one_def)
  then obtain c4 where 4: "notify ps ?c3 = (None, c4)"
    by (cases "notify ps ?c3") simp
  have 5: "commit ps c4 = (None, c4\<lparr>rawPlugins := rawPlugins c4 @ ps\<rparr>)" by (simp add: commit_def)
  show ?thesis unfolding lifecycle_def seq_None using 1 2 3 4 5 by blast
qed




subsection \<open>Runs of the examples\<close>

lemma custom_logger_core:
  "registerPlugins [WithOptions logger custom_options] constructor =
     (None, \<lparr>dependencyGraph = Map.empty, plugins = [''customLogger'' \<mapsto> loggerValue],
        availablePlugins = [''logger''], rawPlugins = [(logger, custom_options)],
        calls = [Register 0, Init 0, AfterInit 0]\<rparr>)"
  by (simp add: ev logger_def custom_options_def)


section \<open>Properties\<close>

text \<open>
  C1. The claim is that a read of an override key \<open>k\<close> on the object passed to \<^verbatim>\<open>register\<close>
  yields the value exposed under \<open>overrides[k]\<close>. The code departs from it: the getter reads
  \<^verbatim>\<open>this.plugins[k]\<close> with the object itself as \<^verbatim>\<open>this\<close>, so the target never takes part,
  and the result is property \<open>k\<close> of whatever is exposed under the key \<open>plugins\<close>. With
  \<open>logger\<close> registered under \<open>customLogger\<close> and \<open>app\<close> registered with
  \<^verbatim>\<open>{ overrides: { logger: "customLogger" } }\<close>, the read of \<open>logger\<close> in \<^verbatim>\<open>register\<close> throws
  \<^verbatim>\<open>TypeError\<close>, and so does \<^verbatim>\<open>registerPlugins\<close>.
\<close>

theorem override_getter_misses_target:
  "view_get tbl \<lparr>options.name = n, overrides = Some [(k, target)]\<rparr> k =
     (if k = ''plugins'' then Inl RangeError else get_prop (plugins_get tbl ''plugins'') k) \<and>
   plugins_get (plugins (snd (registerPlugins [WithOptions logger custom_options] constructor))) ''customLogger'' = loggerValue \<and>
   view_get (plugins (snd (registerPlugins [WithOptions logger custom_options] constructor))) override_options ''logger'' = Inl TypeError \<and>
   fst (registerPlugins [WithOptions app override_options]
          (snd (registerPlugins [WithOptions logger custom_options] constructor))) = Some TypeError"
proof -
  have 1: "view_get tbl \<lparr>options.name = n, overrides = Some [(k, target)]\<rparr> k =
     (if k = ''plugins'' then Inl RangeError else get_prop (plugins_get tbl ''plugins'') k)"
    by (simp add: view_get_def override_keys_def)
  have 2: "fst (registerPlugins [WithOptions app override_options]
          (snd (registerPlugins [WithOptions logger custom_options] constructor))) = Some TypeError"
    unfolding custom_logger_core by (simp add: ev app_def override_options_def)
  show ?thesis
    using 1 2 by (simp add: custom_logger_core plugins_get_def view_get_def override_keys_def override_options_def)
qed

text \<open>
  C2. When some member of the batch depends on a name that is neither among the names
  available before the call nor the name or a \<open>provides\<close> entry of a member of the batch,
  \<^verbatim>\<open>registerPlugins\<close> throws an \<^verbatim>\<open>Error\<close> whose message is \<open>Unmet dependencies: \<close> followed
  by the missing names, each once, in increasing lexicographic order, separated by
  \<open>, \<close>. The state of Core after the throw is the state before the call: no hook has been
  called (the log of calls is the same), and the exposure table, the available names, the
  dependency graph and the list of raw plugins are the same.
\<close>

theorem unmet_dependencies_abort:
  assumes "\<not> satisfiable batch c"
  shows "\<exists>names. registerPlugins batch c =
                    (Some (Error (''Unmet dependencies: '' @ join '', '' names)), c) \<and>
                  set names = missing batch c \<and> sorted names \<and> distinct names"
proof -
  let ?d = "difference (map normalize_item batch) (availablePlugins c)"
  have "registerPlugins batch c = (Some (Error (''Unmet dependencies: '' @ join '', '' (sort ?d))), c)"
    using registerPlugins_unmet[OF assms] by (simp add: unmet_message_def)
  moreover have "set (sort ?d) = missing batch c"
    by (simp add: difference_missing)
  moreover have "sorted (sort ?d)" by simp
  moreover have "distinct (sort ?d)" by (simp add: distinct_difference)
  ultimately show ?thesis by blast
qed

theorem unmet_dependencies_abort_witness:
  "\<not> satisfiable [Plain hasDependency, Plain needy] (snd (registerPlugins [Plain logger] constructor)) \<and>
   (\<exists>names. registerPlugins [Plain hasDependency, Plain needy] (snd (registerPlugins [Plain logger] constructor)) =
               (Some (Error (''Unmet dependencies: '' @ join '', '' names)),
                snd (registerPlugins [Plain logger] constructor)) \<and>
             set names = missing [Plain hasDependency, Plain needy] (snd (registerPlugins [Plain logger] constructor)) \<and>
             sorted names \<and> distinct names) \<and>
   registerPlugins [Plain hasDependency, Plain needy] (snd (registerPlugins [Plain logger] constructor)) =
     (Some (Error ''Unmet dependencies: alpha, example, zeta''), snd (registerPlugins [Plain logger] constructor))"
proof -
  let ?c = "snd (registerPlugins [Plain logger] constructor)"
  have c: "?c = \<lparr>dependencyGraph = Map.empty, plugins = [''logger'' \<mapsto> loggerValue],
     availablePlugins = [''logger''], rawPlugins = [(logger, \<lparr>options.name = None, overrides = None\<rparr>)],
     calls = [Register 0, Init 0, AfterInit 0]\<rparr>"
    by (simp add: ev logger_def)
  have h: "\<not> satisfiable [Plain hasDependency, Plain needy] ?c"
    unfolding c by (simp add: satisfiable_def hasDependency_def needy_def simple_plugin_def)
  have e: "registerPlugins [Plain hasDependency, Plain needy] ?c =
     (Some (Error ''Unmet dependencies: alpha, example, zeta''), ?c)"
    unfolding c by (simp add: ev hasDependency_def needy_def)
  show ?thesis using h unmet_dependencies_abort[OF h] e by simp
qed

text \<open>
  C3, as amended. When every \<open>depends\<close> name of the batch is available or supplied by a
  member, and no hook that the call invokes throws (\<^verbatim>\<open>register\<close>, \<^verbatim>\<open>init\<close> and \<^verbatim>\<open>afterInit\<close>
  of the members, \<^verbatim>\<open>onPluginRegister\<close> of the plugins registered before),
  \<^verbatim>\<open>registerPlugins\<close> returns normally. Whenever it returns normally, the exposure key of
  every member (\<open>options.name\<close> when it is given and not empty, the metadata name
  otherwise) and every name of its \<open>provides\<close> is a key of the exposure table; and a
  lookup of each yields a value other than \<^verbatim>\<open>undefined\<close> provided that no key was bound to
  \<^verbatim>\<open>undefined\<close> before the call and no \<^verbatim>\<open>register\<close> of a member returns \<^verbatim>\<open>undefined\<close>.
\<close>

theorem registered_keys_bound:
  "(satisfiable batch c \<and>
    (\<forall>po \<in> set (map normalize_item batch). lifecycle_returns (fst po)) \<and>
    (\<forall>po \<in> set (rawPlugins c). notification_returns (fst po)) \<longrightarrow>
      (\<exists>c'. registerPlugins batch c = (None, c'))) \<and>
   (registerPlugins batch c = (None, c') \<longrightarrow>
      (\<forall>po \<in> set (map normalize_item batch).
         plugins c' (key_of po) \<noteq> None \<and>
         (\<forall>n \<in> set (provides (metadata (fst po))). plugins c' n \<noteq> None)) \<and>
      ((\<forall>k. plugins c k \<noteq> Some Undefined) \<and>
       (\<forall>po \<in> set (map normalize_item batch). \<forall>view. register (fst po) view \<noteq> Inr Undefined) \<longrightarrow>
         (\<forall>po \<in> set (map normalize_item batch).
            plugins_get (plugins c') (key_of po) \<noteq> Undefined \<and>
            (\<forall>n \<in> set (provides (metadata (fst po))). plugins_get (plugins c') n \<noteq> Undefined))))"
proof (intro conjI impI)
  assume "satisfiable batch c \<and>
    (\<forall>po \<in> set (map normalize_item batch). lifecycle_returns (fst po)) \<and>
    (\<forall>po \<in> set (rawPlugins c). notification_returns (fst po))"
  then show "\<exists>c'. registerPlugins batch c = (None, c')"
    using registerPlugins_returns by blast
next
  assume r: "registerPlugins batch c = (None, c')"
  from registerPlugins_register_phase[OF r] obtain c1 where
    1: "forEach register_one (map normalize_item batch) c = (None, c1)" and 2: "plugins c' = plugins c1"
    by blast
  show bound: "\<forall>po \<in> set (map normalize_item batch).
              plugins c' (key_of po) \<noteq> None \<and>
              (\<forall>n \<in> set (provides (metadata (fst po))). plugins c' n \<noteq> None)"
    unfolding 2 using register_phase_bound[OF 1] by blast
  assume d: "(\<forall>k. plugins c k \<noteq> Some Undefined) \<and>
            (\<forall>po \<in> set (map normalize_item batch). \<forall>view. register (fst po) view \<noteq> Inr Undefined)"
  have nu: "\<And>k. plugins c' k \<noteq> Some Undefined"
    unfolding 2 using register_phase_defined[OF 1] d by blast
  have "plugins_get (plugins c') k \<noteq> Undefined" if "plugins c' k \<noteq> None" for k
    using that nu[of k] by (auto simp: plugins_get_def)
  then show "\<forall>po \<in> set (map normalize_item batch).
                 plugins_get (plugins c') (key_of po) \<noteq> Undefined \<and>
                 (\<forall>n \<in> set (provides (metadata (fst po))). plugins_get (plugins c') n \<noteq> Undefined)"
    using bound by blast
qed

text \<open>
  C3 as stated fails: \<open>logger\<close> is registered alone under the key \<open>customLogger\<close>; the call
  returns normally and the declared name \<open>logger\<close> is not a key of the exposure table.
\<close>

theorem declared_name_unresolvable_counterexample:
  "satisfiable [WithOptions logger custom_options] constructor \<and>
   lifecycle_returns logger \<and>
   rawPlugins constructor = [] \<and>
   registerPlugins [WithOptions logger custom_options] constructor =
     (None, snd (registerPlugins [WithOptions logger custom_options] constructor)) \<and>
   metadata.name (metadata logger) = ''logger'' \<and>
   plugins (snd (registerPlugins [WithOptions logger custom_options] constructor)) ''logger'' = None \<and>
   plugins_get (plugins (snd (registerPlugins [WithOptions logger custom_options] constructor))) ''logger'' = Undefined"
proof -
  have "satisfiable [WithOptions logger custom_options] constructor"
    by (simp add: satisfiable_def logger_def simple_plugin_def)
  moreover have "lifecycle_returns logger"
    by (simp add: lifecycle_returns_def logger_def simple_plugin_def)
  moreover have "rawPlugins constructor = []" by (simp add: constructor_def)
  moreover have "metadata.name (metadata logger) = ''logger''"
    by (simp add: logger_def simple_plugin_def)
  ultimately show ?thesis
    unfolding custom_logger_core by (simp add: plugins_get_def)
qed

theorem registered_keys_bound_witness:
  "satisfiable [Plain logger, WithOptions provider1 main_options] constructor \<and>
   lifecycle_returns logger \<and> lifecycle_returns provider1 \<and> rawPlugins constructor = [] \<and>
   (\<exists>c'. registerPlugins [Plain logger, WithOptions provider1 main_options] constructor = (None, c') \<and>
      plugins c' ''logger'' \<noteq> None \<and> plugins c' ''main'' \<noteq> None \<and> plugins c' ''svc'' \<noteq> None \<and>
      plugins_get (plugins c') ''logger'' \<noteq> Undefined \<and> plugins_get (plugins c') ''main'' \<noteq> Undefined \<and>
      plugins_get (plugins c') ''svc'' \<noteq> Undefined)"
proof -
  let ?b = "[Plain logger, WithOptions provider1 main_options]"
  have h1: "satisfiable ?b constructor"
    by (simp add: satisfiable_def logger_def provider1_def simple_plugin_def)
  have l: "lifecycle_returns logger" by (simp add: lifecycle_returns_def logger_def simple_plugin_def)
  have a: "lifecycle_returns provider1"
    by (simp add: lifecycle_returns_def provider1_def simple_plugin_def)
  have h2: "\<forall>po \<in> set (map normalize_item ?b). lifecycle_returns (fst po)" using l a by simp
  have h3: "\<forall>po \<in> set (rawPlugins constructor). notification_returns (fst po)"
    by (simp add: constructor_def)
  have h4: "\<forall>k. plugins constructor k \<noteq> Some Undefined" by (simp add: constructor_def)
  have h5: "\<forall>po \<in> set (map normalize_item ?b). \<forall>view. register (fst po) view \<noteq> Inr Undefined"
    by (simp add: logger_def simple_plugin_def loggerValue_def provider1_def)
  have k: "key_of (normalize_item (Plain logger)) = ''logger''"
      "key_of (normalize_item (WithOptions provider1 main_options)) = ''main''"
      "provides (metadata provider1) = [''svc'']"
    by (simp_all add: key_of_def logger_def provider1_def simple_plugin_def main_options_def)
  from registered_keys_bound[of ?b constructor] h1 h2 h3
  obtain c' where r: "registerPlugins ?b constructor = (None, c')" by blast
  from registered_keys_bound[of ?b constructor c'] r h4 h5 k
  have "plugins c' ''logger'' \<noteq> None \<and> plugins c' ''main'' \<noteq> None \<and> plugins c' ''svc'' \<noteq> None \<and>
      plugins_get (plugins c') ''logger'' \<noteq> Undefined \<and> plugins_get (plugins c') ''main'' \<noteq> Undefined \<and>
      plugins_get (plugins c') ''svc'' \<noteq> Undefined"
    by simp
  then show ?thesis using h1 l a r by (auto simp: constructor_def)
qed

text \<open>
  C4. A is named \<open>A\<close> and depends on \<open>B\<close>, B is named \<open>B\<close> and depends on \<open>A\<close>, and the two
  are registered together with no options; their \<^verbatim>\<open>register\<close> return \<open>vA\<close> and \<open>vB\<close>. The
  \<^verbatim>\<open>init\<close> and \<^verbatim>\<open>afterInit\<close> of A and B may do anything, throwing included, when the object
  they hold does not resolve \<open>A\<close> to \<open>vA\<close> and \<open>B\<close> to \<open>vB\<close>; if they return whenever it does
  (and the notifications of the earlier plugins return), \<^verbatim>\<open>registerPlugins\<close> returns
  normally: what these hooks read is the other plugin's exposed value. And whenever the
  call returns normally, the objects that A and B received in \<^verbatim>\<open>register\<close>, read in the
  table of the \<^verbatim>\<open>afterInit\<close> loop (which is the final table), resolve \<open>B\<close> to \<open>vB\<close> and \<open>A\<close> to
  \<open>vA\<close>, and \<^verbatim>\<open>init\<close> and \<^verbatim>\<open>afterInit\<close> of A and of B have returned on exactly these reads,
  although A received its object before B was registered.
\<close>

theorem circular_dependency:
  assumes "metadata.name (metadata A) = ''A''" and "depends (metadata A) = [''B'']"
      and "metadata.name (metadata B) = ''B''" and "depends (metadata B) = [''A'']"
      and "register A (view_get (plugins c) no_options) = Inr vA"
      and "register B (view_get (plugins (snd (register_one (A, no_options) c))) no_options) = Inr vB"
  shows "((\<forall>w. w ''A'' = Inr vA \<and> w ''B'' = Inr vB \<longrightarrow>
             init A w = None \<and> init B w = None \<and> afterInit A w = None \<and> afterInit B w = None) \<and>
          (\<forall>po \<in> set (rawPlugins c). notification_returns (fst po)) \<longrightarrow>
            (\<exists>c'. registerPlugins [Plain A, Plain B] c = (None, c'))) \<and>
         (registerPlugins [Plain A, Plain B] c = (None, c') \<longrightarrow>
            view_get (plugins c') no_options ''B'' = Inr vB \<and>
            view_get (plugins c') no_options ''A'' = Inr vA \<and>
            init A (view_get (plugins c') no_options) = None \<and>
            init B (view_get (plugins c') no_options) = None \<and>
            afterInit A (view_get (plugins c') no_options) = None \<and>
            afterInit B (view_get (plugins c') no_options) = None \<and>
            plugins (snd (forEach init_one [(A, no_options), (B, no_options)]
                       (snd (forEach register_one [(A, no_options), (B, no_options)] c)))) = plugins c')"
proof (intro conjI impI)
  let ?ps = "[(A, no_options), (B, no_options)]"
  have n: "map normalize_item [Plain A, Plain B] = ?ps" by (simp add: no_options_def)
  have k: "key_of (A, no_options) = ''A''" "key_of (B, no_options) = ''B''"
    using assms(1,3) by (simp_all add: key_of_def no_options_def)
  have sat: "satisfiable [Plain A, Plain B] c"
    using assms(1-4) by (simp add: satisfiable_def)
  obtain c0 where r0: "register_one (A, no_options) c = (None, c0)"
    using assms(5) by (simp add: register_one_def Let_def)
  have c0: "snd (register_one (A, no_options) c) = c0" using r0 by simp
  obtain c1 where r1: "register_one (B, no_options) c0 = (None, c1)"
    using assms(6) c0 by (simp add: register_one_def Let_def)
  have 1: "forEach register_one ?ps c = (None, c1)"
    using r0 r1 by (simp add: seq_def)
  from register_phase_two[OF 1] k assms(5,6)
  have t: "plugins c1 ''A'' = Some vA" "plugins c1 ''B'' = Some vB" by auto
  have view: "view_get (plugins c1) no_options ''B'' = Inr vB" "view_get (plugins c1) no_options ''A'' = Inr vA"
    using t by (simp_all add: view_get_def override_keys_def no_options_def plugins_get_def)
  {
    assume h: "(\<forall>w. w ''A'' = Inr vA \<and> w ''B'' = Inr vB \<longrightarrow>
             init A w = None \<and> init B w = None \<and> afterInit A w = None \<and> afterInit B w = None) \<and>
          (\<forall>po \<in> set (rawPlugins c). notification_returns (fst po))"
    then have hooks: "init A (view_get (plugins c1) no_options) = None"
        "init B (view_get (plugins c1) no_options) = None"
        "afterInit A (view_get (plugins c1) no_options) = None"
        "afterInit B (view_get (plugins c1) no_options) = None"
      using view by blast+
    have "\<exists>c'. lifecycle ?ps c = (None, c')"
      using h hooks by (intro lifecycle_returns_on_views[OF 1]) simp_all
    then show "\<exists>c'. registerPlugins [Plain A, Plain B] c = (None, c')"
      using sat n by (simp add: registerPlugins_None)
  }
  assume r: "registerPlugins [Plain A, Plain B] c = (None, c')"
  then have l: "lifecycle ?ps c = (None, c')" using n by (simp add: registerPlugins_None)
  from lifecycle_None[OF l] 1 have p: "plugins c' = plugins c1" by auto
  show "view_get (plugins c') no_options ''B'' = Inr vB" using view p by simp
  show "view_get (plugins c') no_options ''A'' = Inr vA" using view p by simp
  show "init A (view_get (plugins c') no_options) = None"
    using lifecycle_hooks(1)[OF l, of "(A, no_options)"] by simp
  show "init B (view_get (plugins c') no_options) = None"
    using lifecycle_hooks(1)[OF l, of "(B, no_options)"] by simp
  show "afterInit A (view_get (plugins c') no_options) = None"
    using lifecycle_hooks(2)[OF l, of "(A, no_options)"] by simp
  show "afterInit B (view_get (plugins c') no_options) = None"
    using lifecycle_hooks(2)[OF l, of "(B, no_options)"] by simp
  show "plugins (snd (forEach init_one ?ps (snd (forEach register_one ?ps c)))) = plugins c'"
    unfolding init_phase_plugins using 1 p by simp
qed

theorem circular_dependency_witness:
  "metadata.name (metadata probeA) = ''A'' \<and> depends (metadata probeA) = [''B''] \<and>
   metadata.name (metadata probeB) = ''B'' \<and> depends (metadata probeB) = [''A''] \<and>
   register probeA (view_get (plugins constructor) no_options) = Inr (Obj [(''a'', Null)]) \<and>
   register probeB (view_get (plugins (snd (register_one (probeA, no_options) constructor))) no_options) =
     Inr (Obj [(''b'', Null)]) \<and>
   rawPlugins constructor = [] \<and>
   afterInit probeA (view_get (plugins constructor) no_options) = Some TypeError \<and>
   \<not> lifecycle_returns probeA \<and>
   (\<exists>c'. registerPlugins [Plain probeA, Plain probeB] constructor = (None, c') \<and>
      view_get (plugins c') no_options ''B'' = Inr (Obj [(''b'', Null)]) \<and>
      view_get (plugins c') no_options ''A'' = Inr (Obj [(''a'', Null)]) \<and>
      afterInit probeA (view_get (plugins c') no_options) = None \<and>
      afterInit probeB (view_get (plugins c') no_options) = None)"
proof -
  let ?vA = "Obj [(''a'', Null)]" and ?vB = "Obj [(''b'', Null)]"
  have m: "metadata.name (metadata probeA) = ''A''" "depends (metadata probeA) = [''B'']"
      "metadata.name (metadata probeB) = ''B''" "depends (metadata probeB) = [''A'']"
    by (simp_all add: probeA_def probeB_def)
  have rA: "register probeA (view_get (plugins constructor) no_options) = Inr ?vA"
    by (simp add: probeA_def)
  have rB: "register probeB (view_get (plugins (snd (register_one (probeA, no_options) constructor))) no_options) = Inr ?vB"
    by (simp add: probeB_def)
  have raw: "rawPlugins constructor = []" by (simp add: constructor_def)
  have hooks: "\<forall>w. w ''A'' = Inr ?vA \<and> w ''B'' = Inr ?vB \<longrightarrow>
             init probeA w = None \<and> init probeB w = None \<and> afterInit probeA w = None \<and> afterInit probeB w = None"
    by (simp add: probeA_def probeB_def)
  have early: "afterInit probeA (view_get (plugins constructor) no_options) = Some TypeError"
    by (simp add: probeA_def view_get_def override_keys_def no_options_def plugins_get_def constructor_def)
  then have nl: "\<not> lifecycle_returns probeA"
    unfolding lifecycle_returns_def by (metis option.distinct(1))
  from circular_dependency[OF m rA rB] hooks raw
  obtain c' where r: "registerPlugins [Plain probeA, Plain probeB] constructor = (None, c')"
    by auto
  from circular_dependency[OF m rA rB, of c'] r
  have "view_get (plugins c') no_options ''B'' = Inr ?vB \<and>
      view_get (plugins c') no_options ''A'' = Inr ?vA \<and>
      afterInit probeA (view_get (plugins c') no_options) = None \<and>
      afterInit probeB (view_get (plugins c') no_options) = None"
    by blast
  then show ?thesis using m rA rB raw early nl r by blast
qed




text \<open>
  C6, as amended. Batches are registered one after the other on a new Core, each
  successfully, and then one more batch is, successfully. During that last call
  \<^verbatim>\<open>onPluginRegister\<close> is invoked once for each plugin record of the earlier batches, in the
  order of their registration, after every call on the members of the new batch; a plugin
  object registered several times before is notified as many times. The members of the
  new batch receive \<^verbatim>\<open>register\<close>, \<^verbatim>\<open>init\<close> and \<^verbatim>\<open>afterInit\<close>, and a member is notified of its
  own batch only when the same plugin object is also a record of an earlier batch.
\<close>

theorem notification_scope:
  assumes "forEach registerPlugins earlier constructor = (None, c)"
      and "registerPlugins batch c = (None, c')"
  shows "calls c' = calls c
           @ map (\<lambda>po. Register (ident (fst po))) (map normalize_item batch)
           @ map (\<lambda>po. Init (ident (fst po))) (map normalize_item batch)
           @ map (\<lambda>po. AfterInit (ident (fst po))) (map normalize_item batch)
           @ map (\<lambda>po. OnPluginRegister (ident (fst po)) (pluginData (map normalize_item batch)))
               (concat (map (map normalize_item) earlier)) \<and>
         notified (drop (length (calls c)) (calls c')) =
           map (\<lambda>po. ident (fst po)) (concat (map (map normalize_item) earlier)) \<and>
         (\<forall>po \<in> set (map normalize_item batch).
            ident (fst po) \<notin> (\<lambda>qo. ident (fst qo)) ` set (concat (map (map normalize_item) earlier)) \<longrightarrow>
            ident (fst po) \<notin> set (notified (drop (length (calls c)) (calls c'))))"
proof -
  have raw: "rawPlugins c = concat (map (map normalize_item) earlier)"
    using registered_rawPlugins[OF assms(1)] by (simp add: constructor_def)
  have 1: "calls c' = calls c
           @ map (\<lambda>po. Register (ident (fst po))) (map normalize_item batch)
           @ map (\<lambda>po. Init (ident (fst po))) (map normalize_item batch)
           @ map (\<lambda>po. AfterInit (ident (fst po))) (map normalize_item batch)
           @ map (\<lambda>po. OnPluginRegister (ident (fst po)) (pluginData (map normalize_item batch)))
               (concat (map (map normalize_item) earlier))"
    using registerPlugins_calls(1)[OF assms(2)] raw by simp
  have 2: "notified (drop (length (calls c)) (calls c')) =
           map (\<lambda>po. ident (fst po)) (concat (map (map normalize_item) earlier))"
    unfolding 1 by (simp add: notified_append del: map_map map_concat)
  show ?thesis using 1 2 by auto
qed

text \<open>
  C6 as stated fails: \<open>logger\<close> is registered, then registered again. The second call
  notifies \<open>logger\<close>, a member of its batch; and a third batch notifies \<open>logger\<close> twice.
\<close>

theorem notification_own_batch_counterexample:
  "forEach registerPlugins [[Plain logger]] constructor =
     (None, snd (registerPlugins [Plain logger] constructor)) \<and>
   registerPlugins [Plain logger] (snd (registerPlugins [Plain logger] constructor)) =
     (None, snd (registerPlugins [Plain logger] (snd (registerPlugins [Plain logger] constructor)))) \<and>
   ident logger = 0 \<and>
   notified (drop (length (calls (snd (registerPlugins [Plain logger] constructor))))
      (calls (snd (registerPlugins [Plain logger] (snd (registerPlugins [Plain logger] constructor)))))) = [0] \<and>
   notified (drop (length (calls (snd (registerPlugins [Plain logger] (snd (registerPlugins [Plain logger] constructor))))))
      (calls (snd (registerPlugins [Plain provider1]
         (snd (registerPlugins [Plain logger] (snd (registerPlugins [Plain logger] constructor)))))))) = [0, 0]"
proof -
  let ?c1 = "snd (registerPlugins [Plain logger] constructor)"
  let ?c2 = "snd (registerPlugins [Plain logger] ?c1)"
  have c1: "registerPlugins [Plain logger] constructor =
     (None, \<lparr>dependencyGraph = Map.empty, plugins = [''logger'' \<mapsto> loggerValue],
        availablePlugins = [''logger''], rawPlugins = [(logger, no_options)],
        calls = [Register 0, Init 0, AfterInit 0]\<rparr>)"
    by (simp add: ev logger_def no_options_def)
  have c2: "registerPlugins [Plain logger] ?c1 =
     (None, \<lparr>dependencyGraph = Map.empty, plugins = [''logger'' \<mapsto> loggerValue],
        availablePlugins = [''logger'', ''logger''], rawPlugins = [(logger, no_options), (logger, no_options)],
        calls = [Register 0, Init 0, AfterInit 0, Register 0, Init 0, AfterInit 0,
                 OnPluginRegister 0 (JsObj (Some \<lparr>metadata.name = ''logger'', provides = [], depends = []\<rparr>) [])]\<rparr>)"
    unfolding c1 by (simp add: ev logger_def no_options_def)
  have h1: "forEach registerPlugins [[Plain logger]] constructor = (None, ?c1)"
    by (simp add: seq_def c1)
  have n3: "notified (drop (length (calls ?c2)) (calls (snd (registerPlugins [Plain provider1] ?c2)))) = [0, 0]"
    unfolding c2 by (simp add: ev logger_def provider1_def no_options_def)
  have n2: "notified (drop (length (calls ?c1)) (calls ?c2)) = [0]"
    unfolding c2 unfolding c1 by simp
  have i: "ident logger = 0" by (simp add: logger_def simple_plugin_def)
  have r2: "registerPlugins [Plain logger] ?c1 = (None, ?c2)" by (simp add: c2)
  show ?thesis using h1 r2 i n2 n3 by blast
qed

text \<open>The first batch is \<open>[logger]\<close>, the second \<open>[provider1]\<close>.\<close>

theorem notification_scope_witness:
  "forEach registerPlugins [[Plain logger]] constructor =
      (None, snd (registerPlugins [Plain logger] constructor)) \<and>
   registerPlugins [Plain provider1] (snd (registerPlugins [Plain logger] constructor)) =
      (None, snd (registerPlugins [Plain provider1] (snd (registerPlugins [Plain logger] constructor)))) \<and>
   ident (fst (normalize_item (Plain provider1))) \<notin> (\<lambda>qo. ident (fst qo)) ` set (concat (map (map normalize_item) [[Plain logger]])) \<and>
   calls (snd (registerPlugins [Plain logger] constructor)) = [Register 0, Init 0, AfterInit 0] \<and>
   drop 3 (calls (snd (registerPlugins [Plain provider1] (snd (registerPlugins [Plain logger] constructor))))) =
     [Register 5, Init 5, AfterInit 5,
      OnPluginRegister 0 (pluginData [normalize_item (Plain provider1)])] \<and>
   notified (drop 3 (calls (snd (registerPlugins [Plain provider1] (snd (registerPlugins [Plain logger] constructor)))))) = [0]"
proof -
  let ?c = "snd (registerPlugins [Plain logger] constructor)"
  let ?c' = "snd (registerPlugins [Plain provider1] ?c)"
  have c: "?c = \<lparr>dependencyGraph = Map.empty, plugins = [''logger'' \<mapsto> loggerValue],
     availablePlugins = [''logger''], rawPlugins = [(logger, \<lparr>options.name = None, overrides = None\<rparr>)],
     calls = [Register 0, Init 0, AfterInit 0]\<rparr>"
    by (simp add: ev logger_def)
  have f1: "fst (registerPlugins [Plain logger] constructor) = None"
    by (simp add: ev logger_def)
  have h1: "forEach registerPlugins [[Plain logger]] constructor = (None, ?c)"
    using f1 by (cases "registerPlugins [Plain logger] constructor") (simp add: seq_def)
  have f2: "fst (registerPlugins [Plain provider1] ?c) = None"
    unfolding c by (simp add: ev logger_def provider1_def)
  have h2: "registerPlugins [Plain provider1] ?c = (None, ?c')"
    using f2 by (simp add: prod_eq_iff)
  have h3: "ident (fst (normalize_item (Plain provider1))) \<notin> (\<lambda>qo. ident (fst qo)) ` set (concat (map (map normalize_item) [[Plain logger]]))"
    by (simp add: provider1_def logger_def simple_plugin_def)
  have len: "calls ?c = [Register 0, Init 0, AfterInit 0]" by (simp add: c)
  from notification_scope[OF h1 h2] show ?thesis
    using h1 h2 h3 len by (simp add: provider1_def logger_def simple_plugin_def)
qed

text \<open>
  C7. The claim is that the argument of every \<^verbatim>\<open>onPluginRegister\<close> call is a mapping from
  the exposure keys of the new batch to the metadata of its members. The code departs
  from it: the callback of \<^verbatim>\<open>reduce\<close> returns the value of the assignment, so the
  accumulator is replaced by the metadata just assigned, and for a batch that is not empty
  the argument is the metadata object of the last member. After batch \<open>[logger]\<close>, batch
  \<open>[provider1]\<close> is registered: \<open>logger\<close> is notified with the metadata of \<open>provider1\<close>, not
  with the object \<open>{p1: metadata}\<close>.
\<close>

theorem notification_argument_is_last_metadata:
  "pluginData (ps @ [po]) = JsObj (Some (metadata (fst po))) [] \<and>
   last (calls (snd (registerPlugins [Plain provider1] (snd (registerPlugins [Plain logger] constructor))))) =
     OnPluginRegister 0 (JsObj (Some \<lparr>metadata.name = ''p1'', provides = [''svc''], depends = []\<rparr>) []) \<and>
   metadata_by_key [normalize_item (Plain provider1)] =
     JsObj None [(''p1'', JsObj (Some \<lparr>metadata.name = ''p1'', provides = [''svc''], depends = []\<rparr>) [])]"
proof -
  let ?c = "snd (registerPlugins [Plain logger] constructor)"
  have c: "?c = \<lparr>dependencyGraph = Map.empty, plugins = [''logger'' \<mapsto> loggerValue],
     availablePlugins = [''logger''], rawPlugins = [(logger, \<lparr>options.name = None, overrides = None\<rparr>)],
     calls = [Register 0, Init 0, AfterInit 0]\<rparr>"
    by (simp add: ev logger_def)
  have "last (calls (snd (registerPlugins [Plain provider1] ?c))) =
     OnPluginRegister 0 (JsObj (Some \<lparr>metadata.name = ''p1'', provides = [''svc''], depends = []\<rparr>) [])"
    unfolding c by (simp add: ev logger_def provider1_def)
  moreover have "metadata_by_key [normalize_item (Plain provider1)] =
     JsObj None [(''p1'', JsObj (Some \<lparr>metadata.name = ''p1'', provides = [''svc''], depends = []\<rparr>) [])]"
    by (simp add: metadata_by_key_def key_of_def provider1_def simple_plugin_def)
  ultimately show ?thesis using pluginData_snoc by blast
qed

text \<open>
  C8. The phases run in the order validate, register, init, afterInit, notify, commit,
  each one over all the members in input order before the next one starts. A batch that
  fails validation ends there, with Core untouched. A batch that passes it and none of
  whose hooks throws (\<^verbatim>\<open>register\<close>, \<^verbatim>\<open>init\<close>, \<^verbatim>\<open>afterInit\<close> of its members,
  \<^verbatim>\<open>onPluginRegister\<close> of the plugins registered before) returns normally. Whenever the
  call returns normally, the calls it has made are \<^verbatim>\<open>register\<close> on every member, then
  \<^verbatim>\<open>init\<close> on every member, then \<^verbatim>\<open>afterInit\<close> on every member, then \<^verbatim>\<open>onPluginRegister\<close>
  on the raw plugins of before the call, and the batch has been appended to the raw
  plugins. In particular, for a single plugin A without dependencies whose metadata name
  is \<open>a\<close>, after \<^verbatim>\<open>registerPlugins([A])\<close> the key \<open>a\<close> reads as the value that the \<^verbatim>\<open>register\<close>
  of A returned, and \<^verbatim>\<open>init\<close> and \<^verbatim>\<open>afterInit\<close> of A have been called once each, in that
  order.
\<close>

theorem lifecycle_order:
  "(\<not> satisfiable batch c \<longrightarrow> (\<exists>m. registerPlugins batch c = (Some (Error m), c))) \<and>
   (satisfiable batch c \<and>
    (\<forall>po \<in> set (map normalize_item batch). lifecycle_returns (fst po)) \<and>
    (\<forall>po \<in> set (rawPlugins c). notification_returns (fst po)) \<longrightarrow>
      (\<exists>c'. registerPlugins batch c = (None, c'))) \<and>
   (registerPlugins batch c = (None, c') \<longrightarrow>
      calls c' = calls c
        @ map (\<lambda>po. Register (ident (fst po))) (map normalize_item batch)
        @ map (\<lambda>po. Init (ident (fst po))) (map normalize_item batch)
        @ map (\<lambda>po. AfterInit (ident (fst po))) (map normalize_item batch)
        @ map (\<lambda>po. OnPluginRegister (ident (fst po)) (pluginData (map normalize_item batch))) (rawPlugins c) \<and>
      rawPlugins c' = rawPlugins c @ map normalize_item batch) \<and>
   (batch = [Plain A] \<and> depends (metadata A) = [] \<and> metadata.name (metadata A) = ''a'' \<longrightarrow>
      satisfiable batch c \<and>
      (registerPlugins batch c = (None, c') \<longrightarrow>
         (\<exists>v. register A (view_get (plugins c) no_options) = Inr v \<and>
              plugins_get (plugins c') ''a'' = v \<and>
              calls c' = calls c @ [Register (ident A), Init (ident A), AfterInit (ident A)]
                @ map (\<lambda>po. OnPluginRegister (ident (fst po)) (pluginData [(A, no_options)])) (rawPlugins c))))"
proof (intro conjI impI)
  assume "\<not> satisfiable batch c"
  then show "\<exists>m. registerPlugins batch c = (Some (Error m), c)"
    using registerPlugins_unmet by blast
next
  assume "satisfiable batch c \<and>
    (\<forall>po \<in> set (map normalize_item batch). lifecycle_returns (fst po)) \<and>
    (\<forall>po \<in> set (rawPlugins c). notification_returns (fst po))"
  then show "\<exists>c'. registerPlugins batch c = (None, c')"
    using registerPlugins_returns by blast
next
  assume r: "registerPlugins batch c = (None, c')"
  show "calls c' = calls c
        @ map (\<lambda>po. Register (ident (fst po))) (map normalize_item batch)
        @ map (\<lambda>po. Init (ident (fst po))) (map normalize_item batch)
        @ map (\<lambda>po. AfterInit (ident (fst po))) (map normalize_item batch)
        @ map (\<lambda>po. OnPluginRegister (ident (fst po)) (pluginData (map normalize_item batch))) (rawPlugins c)"
    by (rule registerPlugins_calls(1)[OF r])
  show "rawPlugins c' = rawPlugins c @ map normalize_item batch"
    by (rule registerPlugins_calls(2)[OF r])
next
  assume A: "batch = [Plain A] \<and> depends (metadata A) = [] \<and> metadata.name (metadata A) = ''a''"
  then show "satisfiable batch c" by (simp add: satisfiable_def)
next
  assume A: "batch = [Plain A] \<and> depends (metadata A) = [] \<and> metadata.name (metadata A) = ''a''"
     and r: "registerPlugins batch c = (None, c')"
  have n: "map normalize_item batch = [(A, no_options)]" using A by (simp add: no_options_def)
  from registerPlugins_register_phase[OF r] obtain c1 where
    1: "forEach register_one [(A, no_options)] c = (None, c1)" and 2: "plugins c' = plugins c1"
    unfolding n by blast
  from register_phase_plugins_single[OF 1] obtain v where
    v: "register A (view_get (plugins c) no_options) = Inr v" "plugins c1 (key_of (A, no_options)) = Some v"
    by auto
  have k: "key_of (A, no_options) = ''a''" using A by (simp add: key_of_def no_options_def)
  have "plugins_get (plugins c') ''a'' = v" using v(2) k 2 by (simp add: plugins_get_def)
  then show "\<exists>v. register A (view_get (plugins c) no_options) = Inr v \<and>
              plugins_get (plugins c') ''a'' = v \<and>
              calls c' = calls c @ [Register (ident A), Init (ident A), AfterInit (ident A)]
                @ map (\<lambda>po. OnPluginRegister (ident (fst po)) (pluginData [(A, no_options)])) (rawPlugins c)"
    using v(1) registerPlugins_calls(1)[OF r] unfolding n by auto
qed

theorem lifecycle_order_witness:
  "lifecycle_returns (simple_plugin 7 ''a'' [] [] Null) \<and>
   rawPlugins (snd (registerPlugins [Plain logger] constructor)) = [normalize_item (Plain logger)] \<and>
   notification_returns logger \<and>
   satisfiable [Plain (simple_plugin 7 ''a'' [] [] Null)] (snd (registerPlugins [Plain logger] constructor)) \<and>
   \<not> satisfiable [Plain hasDependency] constructor \<and>
   (\<exists>m. registerPlugins [Plain hasDependency] constructor = (Some (Error m), constructor)) \<and>
   (\<exists>c'. registerPlugins [Plain (simple_plugin 7 ''a'' [] [] Null)] (snd (registerPlugins [Plain logger] constructor)) = (None, c') \<and>
      plugins_get (plugins c') ''a'' = Null \<and>
      rawPlugins c' = [normalize_item (Plain logger), normalize_item (Plain (simple_plugin 7 ''a'' [] [] Null))] \<and>
      calls c' = [Register 0, Init 0, AfterInit 0, Register 7, Init 7, AfterInit 7,
                  OnPluginRegister 0 (JsObj (Some \<lparr>metadata.name = ''a'', provides = [], depends = []\<rparr>) [])])"
proof -
  let ?A = "simple_plugin 7 ''a'' [] [] Null"
  let ?c = "snd (registerPlugins [Plain logger] constructor)"
  have c: "?c = \<lparr>dependencyGraph = Map.empty, plugins = [''logger'' \<mapsto> loggerValue],
     availablePlugins = [''logger''], rawPlugins = [(logger, \<lparr>options.name = None, overrides = None\<rparr>)],
     calls = [Register 0, Init 0, AfterInit 0]\<rparr>"
    by (simp add: ev logger_def)
  have la: "lifecycle_returns ?A"
    by (simp add: lifecycle_returns_def simple_plugin_def)
  have raw: "rawPlugins ?c = [normalize_item (Plain logger)]"
    by (simp add: c)
  have nl: "notification_returns logger"
    by (simp add: notification_returns_def logger_def simple_plugin_def)
  have h1: "\<forall>po \<in> set (map normalize_item [Plain ?A]). lifecycle_returns (fst po)"
    using la by simp
  have h2: "\<forall>po \<in> set (rawPlugins ?c). notification_returns (fst po)"
    unfolding raw using nl by simp
  have m: "depends (metadata ?A) = [] \<and> metadata.name (metadata ?A) = ''a''"
    by (simp add: simple_plugin_def)
  have h3: "satisfiable [Plain ?A] ?c"
    using lifecycle_order[of "[Plain ?A]" ?c _ ?A] m by blast
  have h4: "\<not> satisfiable [Plain hasDependency] constructor"
    by (simp add: satisfiable_def hasDependency_def simple_plugin_def constructor_def)
  have abort: "\<exists>m. registerPlugins [Plain hasDependency] constructor = (Some (Error m), constructor)"
    using lifecycle_order[of "[Plain hasDependency]" constructor] h4 by blast
  from lifecycle_order[of "[Plain ?A]" ?c] h1 h2 h3
  obtain c' where r: "registerPlugins [Plain ?A] ?c = (None, c')" by blast
  from lifecycle_order[of "[Plain ?A]" ?c c' ?A] r m
  obtain v where v: "register ?A (view_get (plugins ?c) no_options) = Inr v"
     "plugins_get (plugins c') ''a'' = v"
     "calls c' = calls ?c @ [Register (ident ?A), Init (ident ?A), AfterInit (ident ?A)]
                 @ map (\<lambda>po. OnPluginRegister (ident (fst po)) (pluginData [(?A, no_options)])) (rawPlugins ?c)"
     and raw': "rawPlugins c' = rawPlugins ?c @ map normalize_item [Plain ?A]"
    by blast
  from v(1) have "v = Null" by (simp add: simple_plugin_def)
  moreover have "calls c' = [Register 0, Init 0, AfterInit 0, Register 7, Init 7, AfterInit 7,
                  OnPluginRegister 0 (JsObj (Some \<lparr>metadata.name = ''a'', provides = [], depends = []\<rparr>) [])]"
    using v(3) unfolding c by (simp add: pluginData_def reducer_def simple_plugin_def logger_def)
  moreover have "rawPlugins c' = [normalize_item (Plain logger), normalize_item (Plain ?A)]"
    using raw' raw by simp
  ultimately show ?thesis using la raw nl h3 h4 abort r v(2) by blast
qed

text \<open>
  C9, as amended. When \<^verbatim>\<open>registerPlugins\<close> returns, the dependency graph is the graph of
  before the call where, for each member of the batch in input order and each name \<open>d\<close> of
  its \<open>depends\<close> in order, the metadata name of the member (not its exposure key) has been
  appended to the entry of \<open>d\<close>, an absent entry counting as empty; the entry of a name
  that no member depends on is as before.
\<close>

theorem dependency_graph_appends_metadata_name:
  assumes "registerPlugins batch c = (None, c')"
  shows "dependencyGraph c' d =
           (if dependents (map normalize_item batch) d = [] then dependencyGraph c d
            else Some (graph_get (dependencyGraph c) d @ dependents (map normalize_item batch) d))"
proof -
  from assms have "lifecycle (map normalize_item batch) c = (None, c')"
    by (simp add: registerPlugins_None)
  from lifecycle_None[OF this] obtain c1 where
    1: "forEach register_one (map normalize_item batch) c = (None, c1)" and 2: "dependencyGraph c' = dependencyGraph c1"
    by auto
  show ?thesis
    unfolding 2 register_phase_dependencyGraph[OF 1] by (rule fold_dependencies)
qed

text \<open>
  C9 as stated fails: \<open>app\<close>, which depends on \<open>logger\<close>, is registered under the key
  \<open>main\<close>, and the entry of \<open>logger\<close> receives \<open>app\<close>.
\<close>

theorem dependency_graph_key_counterexample:
  "fst (registerPlugins [Plain logger, WithOptions app main_options] constructor) = None \<and>
   key_of (normalize_item (WithOptions app main_options)) = ''main'' \<and>
   depends (metadata app) = [''logger''] \<and>
   dependencyGraph (snd (registerPlugins [Plain logger, WithOptions app main_options] constructor)) ''logger'' = Some [''app''] \<and>
   dependencyGraph (snd (registerPlugins [Plain logger, WithOptions app main_options] constructor)) ''logger'' \<noteq> Some [''main'']"
  by (simp add: ev logger_def app_def main_options_def loggerValue_def)

theorem dependency_graph_appends_metadata_name_witness:
  "registerPlugins [Plain logger, WithOptions app main_options] constructor =
     (None, snd (registerPlugins [Plain logger, WithOptions app main_options] constructor)) \<and>
   dependents (map normalize_item [Plain logger, WithOptions app main_options]) ''logger'' = [''app''] \<and>
   dependents (map normalize_item [Plain logger, WithOptions app main_options]) ''app'' = [] \<and>
   dependencyGraph (snd (registerPlugins [Plain logger, WithOptions app main_options] constructor)) ''logger'' = Some [''app''] \<and>
   dependencyGraph (snd (registerPlugins [Plain logger, WithOptions app main_options] constructor)) ''app'' = None"
proof -
  let ?b = "[Plain logger, WithOptions app main_options]"
  have f: "fst (registerPlugins ?b constructor) = None"
    by (simp add: ev logger_def app_def main_options_def loggerValue_def)
  have h: "registerPlugins ?b constructor = (None, snd (registerPlugins ?b constructor))"
    using f by (simp add: prod_eq_iff)
  have d1: "dependents (map normalize_item ?b) ''logger'' = [''app'']"
    by (simp add: dependents_def logger_def app_def simple_plugin_def)
  have d2: "dependents (map normalize_item ?b) ''app'' = []"
    by (simp add: dependents_def logger_def app_def simple_plugin_def)
  have g0: "dependencyGraph constructor = Map.empty" by (simp add: constructor_def)
  show ?thesis
    using h dependency_graph_appends_metadata_name[OF h, of "''logger''"]
      dependency_graph_appends_metadata_name[OF h, of "''app''"] d1 d2
    by (simp add: g0 graph_get_def)
qed

text \<open>
  C10. A batch is registered successfully; one of its members has \<open>options.name = k\<close>,
  where \<open>k\<close> is not empty and differs from its metadata name, and \<open>k\<close> is neither an
  available name before the call nor the metadata name or a \<open>provides\<close> entry of a member.
  Then \<open>k\<close> is bound in the exposure table, the names appended to the available names are
  the metadata names and \<open>provides\<close> entries of the members, so the metadata name of the
  member is available and \<open>k\<close> is not, and a later batch with a member that depends on \<open>k\<close>
  and no member that is named \<open>k\<close> or provides \<open>k\<close> fails the dependency check, \<open>k\<close> being one
  of the names reported.
\<close>

theorem custom_name_not_available:
  assumes "registerPlugins batch c = (None, c')"
      and "(p, opts) \<in> set (map normalize_item batch)"
      and "options.name opts = Some k" and "k \<noteq> []" and "k \<noteq> metadata.name (metadata p)"
      and "k \<notin> set (availablePlugins c)"
      and "\<forall>qo \<in> set (map normalize_item batch).
             k \<noteq> metadata.name (metadata (fst qo)) \<and> k \<notin> set (provides (metadata (fst qo)))"
      and "(q, qopts) \<in> set (map normalize_item later)" and "k \<in> set (depends (metadata q))"
      and "\<forall>qo \<in> set (map normalize_item later).
             k \<noteq> metadata.name (metadata (fst qo)) \<and> k \<notin> set (provides (metadata (fst qo)))"
  shows "plugins c' k \<noteq> None \<and>
         availablePlugins c' = availablePlugins c @
            concat (map (\<lambda>po. metadata.name (metadata (fst po)) # provides (metadata (fst po))) (map normalize_item batch)) \<and>
         metadata.name (metadata p) \<in> set (availablePlugins c') \<and>
         k \<notin> set (availablePlugins c') \<and>
         (\<exists>names. registerPlugins later c' =
                     (Some (Error (''Unmet dependencies: '' @ join '', '' names)), c') \<and>
                   k \<in> set names \<and> set names = missing later c' \<and> sorted names \<and> distinct names)"
proof -
  from registerPlugins_register_phase[OF assms(1)] obtain c1 where
    1: "forEach register_one (map normalize_item batch) c = (None, c1)" and
    2: "plugins c' = plugins c1" and 3: "availablePlugins c' = availablePlugins c1"
    by blast
  have key: "key_of (p, opts) = k" using assms(3,4) by (simp add: key_of_def)
  have a: "plugins c' k \<noteq> None"
    using register_phase_bound[OF 1 assms(2)] key 2 by simp
  have av: "availablePlugins c' = availablePlugins c @
            concat (map (\<lambda>po. metadata.name (metadata (fst po)) # provides (metadata (fst po))) (map normalize_item batch))"
    using register_phase_availablePlugins[OF 1] 3 by simp
  have b: "metadata.name (metadata p) \<in> set (availablePlugins c')"
  proof -
    let ?f = "\<lambda>po. metadata.name (metadata (fst po)) # provides (metadata (fst po))"
    have "metadata.name (metadata p) \<in> set (?f (p, opts))" by simp
    then have "metadata.name (metadata p) \<in> (\<Union>po \<in> set (map normalize_item batch). set (?f po))"
      using assms(2) by blast
    then show ?thesis unfolding av by simp
  qed
  have n: "k \<notin> set (availablePlugins c')"
    unfolding av using assms(6,7) by auto
  have m: "k \<in> missing later c'"
  proof -
    have "\<exists>po \<in> set (map normalize_item later). k \<in> set (depends (metadata (fst po)))"
      using assms(8,9) by (intro bexI[of _ "(q, qopts)"]) simp_all
    then show ?thesis unfolding missing_def using assms(10) n by blast
  qed
  then have "\<not> satisfiable later c'"
    unfolding missing_def satisfiable_def by blast
  from unmet_names[OF this] obtain names where
    "registerPlugins later c' = (Some (Error (''Unmet dependencies: '' @ join '', '' names)), c')"
    "set names = missing later c'" "sorted names" "distinct names"
    by blast
  then show ?thesis using a av b n m by blast
qed

theorem custom_name_not_available_witness:
  "registerPlugins [WithOptions logger custom_options] constructor =
     (None, snd (registerPlugins [WithOptions logger custom_options] constructor)) \<and>
   options.name custom_options = Some ''customLogger'' \<and>
   metadata.name (metadata logger) = ''logger'' \<and>
   depends (metadata consumer) = [''customLogger''] \<and>
   plugins (snd (registerPlugins [WithOptions logger custom_options] constructor)) ''customLogger'' = Some loggerValue \<and>
   availablePlugins (snd (registerPlugins [WithOptions logger custom_options] constructor)) = [''logger''] \<and>
   (\<exists>names. registerPlugins [Plain consumer] (snd (registerPlugins [WithOptions logger custom_options] constructor)) =
        (Some (Error (''Unmet dependencies: '' @ join '', '' names)),
         snd (registerPlugins [WithOptions logger custom_options] constructor)) \<and>
      ''customLogger'' \<in> set names)"
proof -
  let ?b = "[WithOptions logger custom_options]"
  let ?c' = "snd (registerPlugins ?b constructor)"
  have h1: "registerPlugins ?b constructor = (None, ?c')"
    by (simp add: custom_logger_core)
  have h2: "(logger, custom_options) \<in> set (map normalize_item ?b)" by simp
  have h3: "options.name custom_options = Some ''customLogger''" by (simp add: custom_options_def)
  have h4: "''customLogger'' \<noteq> []" by simp
  have h5: "''customLogger'' \<noteq> metadata.name (metadata logger)"
    by (simp add: logger_def simple_plugin_def)
  have h6: "''customLogger'' \<notin> set (availablePlugins constructor)" by (simp add: constructor_def)
  have h7: "\<forall>qo \<in> set (map normalize_item ?b).
             ''customLogger'' \<noteq> metadata.name (metadata (fst qo)) \<and> ''customLogger'' \<notin> set (provides (metadata (fst qo)))"
    by (simp add: logger_def simple_plugin_def)
  have h8: "(consumer, no_options) \<in> set (map normalize_item [Plain consumer])"
    by (simp add: no_options_def)
  have h9: "''customLogger'' \<in> set (depends (metadata consumer))"
    by (simp add: consumer_def simple_plugin_def)
  have h10: "\<forall>qo \<in> set (map normalize_item [Plain consumer]).
             ''customLogger'' \<noteq> metadata.name (metadata (fst qo)) \<and> ''customLogger'' \<notin> set (provides (metadata (fst qo)))"
    by (simp add: consumer_def simple_plugin_def)
  from custom_name_not_available[OF h1 h2 h3 h4 h5 h6 h7 h8 h9 h10]
  have "\<exists>names. registerPlugins [Plain consumer] ?c' =
        (Some (Error (''Unmet dependencies: '' @ join '', '' names)), ?c') \<and> ''customLogger'' \<in> set names"
    by blast
  moreover have "plugins ?c' ''customLogger'' = Some loggerValue" "availablePlugins ?c' = [''logger'']"
    by (simp_all add: custom_logger_core)
  moreover have "metadata.name (metadata logger) = ''logger''" "depends (metadata consumer) = [''customLogger'']"
    by (simp_all add: logger_def consumer_def simple_plugin_def)
  ultimately show ?thesis using h1 h3 by blast
qed

end
